theory Spec2Isabelle
  imports Main "HOL-Library.Word"
begin

unbundle bit_operations_syntax

section \<open>The LLVM chunk builder of llv8 (src/llvm/llvm-chunk.cc)\<close>

text \<open>
  The builder lowers a Hydrogen graph (basic blocks of typed instructions) to LLVM IR.
  The embedding keeps the source's names. Pointers to zone objects are identifiers
  (\<open>nat\<close>), a pointer that may be \<open>NULL\<close> is an \<open>option\<close>, and the objects live
  in explicit stores of the builder state, so that aliasing (two blocks holding the same
  environment) is visible. A member \<open>x_\<close> of the builder class is the field \<open>x'\<close>.
  Every fatal exit of the source is an \<open>error\<close>.
\<close>

subsection \<open>Fatal exits\<close>

text \<open>
  Modelled from the spec: the macros \<open>DCHECK\<close>, \<open>CHECK\<close> and \<open>UNREACHABLE\<close>
  are defined outside src/. The spec: an invariant violation (a missing materialized
  value, a representation-precondition mismatch, a predicate lookup for an operator that
  must never reach it) is fatal and never silently continued. A failed \<open>DCHECK\<close> or
  \<open>CHECK\<close> is \<open>CheckFailed\<close>, \<open>UNREACHABLE()\<close> is \<open>UnreachableCode\<close>. The
  other fatal exits are the use of a null pointer, an index out of range, a vector of
  negative length, and \<open>OutOfFuel\<close> for the bound on nested visits (see
  \<open>VisitInstruction\<close>).
\<close>

datatype error =
    UnreachableCode
  | CheckFailed
  | NullDereference
  | InvalidIndex
  | LengthError
  | OutOfFuel

definition bindE :: "error + 'a \<Rightarrow> ('a \<Rightarrow> error + 'b) \<Rightarrow> error + 'b" where
  "bindE m f = (case m of Inl e \<Rightarrow> Inl e | Inr x \<Rightarrow> f x)"

subsection \<open>Hydrogen side: representations, tokens, values, blocks\<close>

text \<open>
  Modelled from the spec: the representation tag of a value (class Representation is
  declared outside src/). The spec names tagged, small-integer, 32-bit integer, double and
  external; \<open>NoRepresentation\<close> stands for every other kind, which the final
  \<open>else\<close> branches of the source can see.
\<close>

datatype Representation =
  NoRepresentation | Smi | Integer32 | Double | Tagged | External

text \<open>
  The relational tokens that \<open>TokenToPredicate\<close> names; \<open>OTHER_TOKEN\<close> stands
  for every other member of Token::Value (the \<open>default\<close> label).
\<close>

datatype Token =
  EQ | EQ_STRICT | NE | NE_STRICT | LT | GT | LTE | GTE | IN | INSTANCEOF | OTHER_TOKEN

datatype Predicate =
    BAD_FCMP_PREDICATE
  | ICMP_EQ | ICMP_NE
  | ICMP_UGT | ICMP_UGE | ICMP_ULT | ICMP_ULE
  | ICMP_SGT | ICMP_SGE | ICMP_SLT | ICMP_SLE

text \<open>
  LLVM values are kept as expression trees: an argument of the function, a 64-bit
  constant, or the instruction that an IRBuilder call creates, with its operands.
  Basic blocks of the target are handles (\<open>nat\<close>).
\<close>

datatype llvm_Value =
    Argument nat
  | ConstantInt "64 word"
  | Add llvm_Value llvm_Value
  | Sub llvm_Value llvm_Value
  | Mul llvm_Value llvm_Value
  | Shl llvm_Value nat
  | LShr llvm_Value nat
  | ICmp Predicate llvm_Value llvm_Value
  | CondBr llvm_Value nat nat
  | Br nat
  | Ret llvm_Value

text \<open>The object behind a tagged constant's handle: a Smi (its raw word) or a heap object.\<close>

datatype Object = SmiObject "64 word" | HeapObject

text \<open>
  One constructor per handler that does more than stop at \<open>UNIMPLEMENTED()\<close>; the
  instruction's own operands are the constructor's arguments (value and block ids).
  \<open>HUnimplemented\<close> stands for every opcode whose handler body is the single statement
  \<open>UNIMPLEMENTED();\<close> (DoGoto, DoAbnormalExit, DoBranch, DoDiv, DoTypeof, ...), with
  the opcode's name.
\<close>

datatype Opcode =
    HBlockEntry nat
  | HContext
  | HParameter "32 word"
  | HArgumentsObject
  | HSimulate "(int \<times> nat) list"
  | HStackCheck
  | HConstant "32 word" Object
  | HReturn nat "nat option"
  | HAdd nat nat
  | HSub nat nat
  | HMul nat nat
  | HChange nat Representation Representation
  | HCompareNumericAndBranch nat nat Token nat nat
  | HUnimplemented string

record HValue =
  opcode :: Opcode
  representation :: Representation
  EmitAtUses :: bool
  llvm_value :: "llvm_Value option"
  CanOverflow :: bool
  Uint32 :: bool
  type_IsSmi :: bool
  HasNoUses :: bool
  CanReplaceWithDummyUses :: bool
  operands :: "nat list"
  IsControlInstruction :: bool
  KnownSuccessorBlock :: "nat option option"

record HPhi =
  phi_value :: nat
  merged_index :: "int option"

record HBasicBlock =
  IsStartBlock :: bool
  predecessors :: "nat list"
  phis :: "HPhi list"
  deleted_phis :: "int list"
  instructions :: "nat list"
  end_successors :: "nat list"
  last_environment :: "nat option"
  argument_count :: int
  llvm_basic_block :: "nat option"

record CompilationInfo =
  num_parameters :: "32 word"
  IsStub :: bool
  saves_caller_doubles :: bool

record HGraph =
  graph_blocks :: "nat list"
  start_environment :: "nat option"
  GetConstantUndefined :: nat

subsection \<open>Target side and builder state\<close>

datatype llvm_Type = VoidTy | Int1Ty | Int32Ty | Int64Ty | DoubleTy | PointerTy

record llvm_Function =
  return_type :: llvm_Type
  param_types :: "llvm_Type list"
  is_var_arg :: bool
  calling_conv_X86_64_V8 :: bool

record LLVMChunk =
  llvm_function_id :: "nat option"

text \<open>
  Modelled from the spec: the lifecycle state of the compilation unit, one of BUILDING,
  ABORTED and DONE (\<open>status_\<close> and its tests \<open>is_aborted()\<close> and
  \<open>is_building()\<close> are declared in llvm-chunk.h, outside src/).
\<close>

datatype Status = BUILDING | DONE | ABORTED

record LLVMChunkBuilder =
  info :: CompilationInfo
  graph :: HGraph
  SmiValuesAre32Bits :: bool
  hvalues :: "nat \<Rightarrow> HValue"
  hblocks :: "nat \<Rightarrow> HBasicBlock"
  environments :: "nat list list"
  status' :: Status
  current_instruction' :: "nat option"
  current_block' :: "nat option"
  next_block' :: "nat option"
  argument_count' :: int
  chunk' :: "LLVMChunk option"
  module' :: "nat option"
  function' :: "llvm_Function option"
  llvm_ir_builder' :: "nat option"
  emitted :: "(nat option \<times> llvm_Value) list"
  created_blocks :: nat
  granularity_count :: nat
  granularity_modules :: "nat list"

subsection \<open>Macros, constants and accessors that the source uses\<close>

text \<open>
  Modelled from the spec: the macro \<open>UNIMPLEMENTED()\<close>, defined outside src/. The spec:
  hitting an unimplemented handler makes the compilation unit transition to ABORTED. The
  statements that follow the macro in a handler run as the source writes them.
\<close>

definition UNIMPLEMENTED :: "LLVMChunkBuilder \<Rightarrow> LLVMChunkBuilder" where
  "UNIMPLEMENTED s = s\<lparr>status' := ABORTED\<rparr>"

definition is_aborted :: "LLVMChunkBuilder \<Rightarrow> bool" where
  "is_aborted s = (status' s = ABORTED)"

definition is_building :: "LLVMChunkBuilder \<Rightarrow> bool" where
  "is_building s = (status' s = BUILDING)"

text \<open>
  Modelled from the spec: the tagging width, a configuration constant with two supported
  values (kSmiShift is defined outside src/): 32 when Smi values are 32 bits (tag size 1
  plus shift size 31), 1 when they are 31 bits.
\<close>

definition kSmiShift :: "LLVMChunkBuilder \<Rightarrow> nat" where
  "kSmiShift s = (if SmiValuesAre32Bits s then 32 else 1)"

definition set_llvm_value :: "nat \<Rightarrow> llvm_Value option \<Rightarrow> LLVMChunkBuilder \<Rightarrow> LLVMChunkBuilder" where
  "set_llvm_value v x s = s\<lparr>hvalues := (hvalues s)(v := (hvalues s v)\<lparr>llvm_value := x\<rparr>)\<rparr>"

text \<open>What every \<open>llvm_ir_builder_->Create...\<close> call does with the new instruction:
  it is appended at the builder's insertion block.\<close>

definition Insert :: "llvm_Value \<Rightarrow> LLVMChunkBuilder \<Rightarrow> LLVMChunkBuilder" where
  "Insert i s = s\<lparr>emitted := emitted s @ [(llvm_ir_builder' s, i)]\<rparr>"

text \<open>
  Modelled from the spec: the environment, an ordered sequence of slot values that blocks
  share by reference or copy (HEnvironment and \<open>HBasicBlock::UpdateEnvironment\<close> are
  declared outside src/). The builder keeps the environments in a store; a pointer to one
  is its index there. \<open>SetValueAt\<close> stores into a slot of the environment that the
  pointer names; a null pointer, a dangling address and an index outside the environment
  are fatal. \<open>Copy\<close> allocates a new environment with the same slots.
  \<open>UpdateEnvironment\<close> binds a block's environment to the given one.
\<close>

definition SetValueAt :: "nat option \<Rightarrow> int \<Rightarrow> nat \<Rightarrow> LLVMChunkBuilder \<Rightarrow> error + LLVMChunkBuilder" where
  "SetValueAt env index v s =
     (case env of
        None \<Rightarrow> Inl NullDereference
      | Some a \<Rightarrow>
          if \<not> a < length (environments s) then Inl InvalidIndex
          else if \<not> (0 \<le> index \<and> index < int (length (environments s ! a))) then Inl InvalidIndex
          else Inr (s\<lparr>environments := (environments s)[a := (environments s ! a)[nat index := v]]\<rparr>))"

definition env_length :: "nat option \<Rightarrow> LLVMChunkBuilder \<Rightarrow> error + int" where
  "env_length env s =
     (case env of
        None \<Rightarrow> Inl NullDereference
      | Some a \<Rightarrow>
          if \<not> a < length (environments s) then Inl InvalidIndex
          else Inr (int (length (environments s ! a))))"

definition Copy :: "nat \<Rightarrow> LLVMChunkBuilder \<Rightarrow> error + (nat \<times> LLVMChunkBuilder)" where
  "Copy a s =
     (if \<not> a < length (environments s) then Inl InvalidIndex
      else Inr (length (environments s), s\<lparr>environments := environments s @ [environments s ! a]\<rparr>))"

definition UpdateEnvironment :: "nat \<Rightarrow> nat option \<Rightarrow> LLVMChunkBuilder \<Rightarrow> LLVMChunkBuilder" where
  "UpdateEnvironment b env s = s\<lparr>hblocks := (hblocks s)(b := (hblocks s b)\<lparr>last_environment := env\<rparr>)\<rparr>"

definition set_argument_count :: "nat \<Rightarrow> int \<Rightarrow> LLVMChunkBuilder \<Rightarrow> LLVMChunkBuilder" where
  "set_argument_count b n s = s\<lparr>hblocks := (hblocks s)(b := (hblocks s b)\<lparr>argument_count := n\<rparr>)\<rparr>"

definition FirstSuccessor :: "HBasicBlock \<Rightarrow> nat option" where
  "FirstSuccessor b = (if 0 < length (end_successors b) then Some (end_successors b ! 0) else None)"

definition SecondSuccessor :: "HBasicBlock \<Rightarrow> nat option" where
  "SecondSuccessor b = (if 1 < length (end_successors b) then Some (end_successors b ! 1) else None)"

definition IsConstant :: "HValue \<Rightarrow> bool" where
  "IsConstant v = (case opcode v of HConstant i obj \<Rightarrow> True | _ \<Rightarrow> False)"

subsection \<open>The materialization cache: \<open>Use\<close>\<close>

text \<open>\<open>Use(HBasicBlock*)\<close>: the block's LLVM block, created on first use.\<close>

definition Use_block :: "nat \<Rightarrow> LLVMChunkBuilder \<Rightarrow> nat \<times> LLVMChunkBuilder" where
  "Use_block b s =
     (case llvm_basic_block (hblocks s b) of
        Some h \<Rightarrow> (h, s)
      | None \<Rightarrow>
          (created_blocks s,
           s\<lparr>hblocks := (hblocks s)(b := (hblocks s b)\<lparr>llvm_basic_block := Some (created_blocks s)\<rparr>),
             created_blocks := Suc (created_blocks s)\<rparr>))"

text \<open>
  \<open>Use(HValue*)\<close>. The source calls \<open>VisitInstruction\<close>, which calls the handlers,
  which call \<open>Use\<close> again: the recursion is tied below, and \<open>visit\<close> is the
  \<open>VisitInstruction\<close> that this \<open>Use\<close> may call.
\<close>

definition Use_value ::
  "(nat \<Rightarrow> LLVMChunkBuilder \<Rightarrow> error + LLVMChunkBuilder) \<Rightarrow> nat \<Rightarrow> LLVMChunkBuilder
     \<Rightarrow> error + (llvm_Value \<times> LLVMChunkBuilder)" where
  "Use_value visit v s =
     bindE (if EmitAtUses (hvalues s v) \<and> llvm_value (hvalues s v) = None then visit v s else Inr s)
       (\<lambda>s'. case llvm_value (hvalues s' v) of
                None \<Rightarrow> Inl CheckFailed
              | Some x \<Rightarrow> Inr (x, s'))"

subsection \<open>Representation model\<close>

definition SmiToInteger32 ::
  "(nat \<Rightarrow> LLVMChunkBuilder \<Rightarrow> error + LLVMChunkBuilder) \<Rightarrow> nat \<Rightarrow> LLVMChunkBuilder
     \<Rightarrow> error + (llvm_Value option \<times> LLVMChunkBuilder)" where
  "SmiToInteger32 visit v s =
     (if SmiValuesAre32Bits s then
        bindE (Use_value visit v s)
          (\<lambda>(x, s'). Inr (Some (LShr x (kSmiShift s')), Insert (LShr x (kSmiShift s')) s'))
      else Inr (None, UNIMPLEMENTED s))"

definition Integer32ToSmi ::
  "(nat \<Rightarrow> LLVMChunkBuilder \<Rightarrow> error + LLVMChunkBuilder) \<Rightarrow> nat \<Rightarrow> LLVMChunkBuilder
     \<Rightarrow> error + (llvm_Value \<times> LLVMChunkBuilder)" where
  "Integer32ToSmi visit v s =
     bindE (Use_value visit v s)
       (\<lambda>(x, s'). Inr (Shl x (kSmiShift s'), Insert (Shl x (kSmiShift s')) s'))"

fun TokenToPredicate :: "Token \<Rightarrow> bool \<Rightarrow> error + Predicate" where
  "TokenToPredicate EQ is_unsigned = Inr ICMP_EQ"
| "TokenToPredicate EQ_STRICT is_unsigned = Inr ICMP_EQ"
| "TokenToPredicate NE is_unsigned = Inr ICMP_NE"
| "TokenToPredicate NE_STRICT is_unsigned = Inr ICMP_NE"
| "TokenToPredicate LT is_unsigned = Inr (if is_unsigned then ICMP_ULT else ICMP_SLT)"
| "TokenToPredicate GT is_unsigned = Inr (if is_unsigned then ICMP_UGT else ICMP_SGT)"
| "TokenToPredicate LTE is_unsigned = Inr (if is_unsigned then ICMP_ULE else ICMP_SLE)"
| "TokenToPredicate GTE is_unsigned = Inr (if is_unsigned then ICMP_UGE else ICMP_SGE)"
| "TokenToPredicate IN is_unsigned = Inl UnreachableCode"
| "TokenToPredicate INSTANCEOF is_unsigned = Inl UnreachableCode"
| "TokenToPredicate OTHER_TOKEN is_unsigned = Inl UnreachableCode"

text \<open>
  The denotation of the arithmetic LLVM values on 64-bit words (the target's semantics,
  needed to say what a shift computes): \<open>shl\<close> and \<open>lshr\<close> by less than 64 are
  \<open>push_bit\<close> and \<open>drop_bit\<close>; branches, comparisons and returns denote no word.
\<close>

fun eval_llvm :: "(nat \<Rightarrow> 64 word) \<Rightarrow> llvm_Value \<Rightarrow> 64 word option" where
  "eval_llvm args (Argument n) = Some (args n)"
| "eval_llvm args (ConstantInt c) = Some c"
| "eval_llvm args (Add a b) =
     (case (eval_llvm args a, eval_llvm args b) of (Some x, Some y) \<Rightarrow> Some (x + y) | _ \<Rightarrow> None)"
| "eval_llvm args (Sub a b) =
     (case (eval_llvm args a, eval_llvm args b) of (Some x, Some y) \<Rightarrow> Some (x - y) | _ \<Rightarrow> None)"
| "eval_llvm args (Mul a b) =
     (case (eval_llvm args a, eval_llvm args b) of (Some x, Some y) \<Rightarrow> Some (x * y) | _ \<Rightarrow> None)"
| "eval_llvm args (Shl a n) =
     (case eval_llvm args a of Some x \<Rightarrow> (if n < 64 then Some (push_bit n x) else None) | None \<Rightarrow> None)"
| "eval_llvm args (LShr a n) =
     (case eval_llvm args a of Some x \<Rightarrow> (if n < 64 then Some (drop_bit n x) else None) | None \<Rightarrow> None)"
| "eval_llvm args (ICmp p a b) = None"
| "eval_llvm args (CondBr c t f) = None"
| "eval_llvm args (Br b) = None"
| "eval_llvm args (Ret a) = None"

subsection \<open>Per-opcode handlers\<close>

text \<open>
  Each handler takes the id of its instruction (\<open>instr\<close>), the instruction's operands
  and, where it resolves operands, the \<open>visit\<close> that \<open>Use\<close> may call. The two operands
  of a call such as \<open>CreateAdd(Use(left), Use(right))\<close> are resolved left to right (C++
  leaves the order open; it changes the order of the emitted instructions only).
\<close>

definition DoBlockEntry :: "nat \<Rightarrow> LLVMChunkBuilder \<Rightarrow> error + LLVMChunkBuilder" where
  "DoBlockEntry block s = Inr (snd (Use_block block s))"

definition DoContext :: "nat \<Rightarrow> LLVMChunkBuilder \<Rightarrow> error + LLVMChunkBuilder" where
  "DoContext instr s =
     (if HasNoUses (hvalues s instr) then Inr s
      else if IsStub (info s) then Inr (UNIMPLEMENTED s)
      else Inr s)"

text \<open>
  \<open>index\<close> and \<open>num_parameters\<close> are C++ \<open>int\<close>s: 32-bit words, read as signed,
  whose arithmetic wraps around. The loop \<open>while (--index + num_parameters > 0) ++it;\<close>
  counts the steps of the argument iterator.
\<close>

function DoParameter_loop :: "32 word \<Rightarrow> 32 word \<Rightarrow> nat \<Rightarrow> nat" where
  "DoParameter_loop index num_params it =
     (if 0 <s (index - 1) + num_params then DoParameter_loop (index - 1) num_params (Suc it) else it)"
  by pat_completeness auto
termination
proof (relation "measure (\<lambda>(index, num_params, it). nat (sint ((index - 1) + num_params)))")
  show "wf (measure (\<lambda>(index :: 32 word, num_params :: 32 word, it :: nat).
              nat (sint ((index - 1) + num_params))))"
    by simp
next
  fix index num_params :: "32 word" and it :: nat
  define w where "w = index - 1 + num_params"
  assume "0 <s index - 1 + num_params"
  then have pos: "0 < sint w"
    by (simp add: word_sless_alt w_def)
  have next_w: "index - 1 - 1 + num_params = w - 1"
    by (simp add: w_def)
  have "sint w < 2 ^ 31"
    using sint_lt [of w] by simp
  with pos have "signed_take_bit 31 (sint w - 1) = sint w - 1"
    by (intro signed_take_bit_int_eq_self) simp_all
  then have "sint (w - 1) = sint w - 1"
    by (simp add: sint_word_ariths)
  with pos have "nat (sint (w - 1)) < nat (sint w)"
    by simp
  then show "((index - 1, num_params, Suc it), (index, num_params, it))
          \<in> measure (\<lambda>(index, num_params, it). nat (sint ((index - 1) + num_params)))"
    unfolding in_measure prod.case next_w w_def [symmetric] .
qed

declare DoParameter_loop.simps [simp del]

text \<open>The iterator must stay among the function's arguments: stepping it past the last
  one is fatal.\<close>

definition DoParameter :: "nat \<Rightarrow> 32 word \<Rightarrow> LLVMChunkBuilder \<Rightarrow> error + LLVMChunkBuilder" where
  "DoParameter instr index s =
     (let num_params = num_parameters (info s) + 3 in
      case function' s of
        None \<Rightarrow> Inl NullDereference
      | Some f \<Rightarrow>
          (let it = DoParameter_loop (- index) num_params 0 in
           if \<not> it < length (param_types f) then Inl InvalidIndex
           else Inr (set_llvm_value instr (Some (Argument it)) s)))"

definition DoArgumentsObject :: "LLVMChunkBuilder \<Rightarrow> error + LLVMChunkBuilder" where
  "DoArgumentsObject s = Inr s"

text \<open>
  Modelled from the spec: \<open>HSimulate::ReplayEnvironment\<close> is defined outside src/. The
  spec: it replays the environment snapshot into the current block's environment and
  emits no code. The snapshot is the instruction's list of (slot, value) bindings.
\<close>

fun ReplayEnvironment :: "(int \<times> nat) list \<Rightarrow> nat option \<Rightarrow> LLVMChunkBuilder \<Rightarrow> error + LLVMChunkBuilder" where
  "ReplayEnvironment [] env s = Inr s"
| "ReplayEnvironment ((index, v) # rest) env s =
     bindE (SetValueAt env index v s) (ReplayEnvironment rest env)"

definition DoSimulate :: "(int \<times> nat) list \<Rightarrow> LLVMChunkBuilder \<Rightarrow> error + LLVMChunkBuilder" where
  "DoSimulate snapshot s =
     (case current_block' s of
        None \<Rightarrow> Inl NullDereference
      | Some b \<Rightarrow> ReplayEnvironment snapshot (last_environment (hblocks s b)) s)"

definition DoStackCheck :: "LLVMChunkBuilder \<Rightarrow> error + LLVMChunkBuilder" where
  "DoStackCheck s = Inr s"

definition DoConstant :: "nat \<Rightarrow> 32 word \<Rightarrow> Object \<Rightarrow> LLVMChunkBuilder \<Rightarrow> error + LLVMChunkBuilder" where
  "DoConstant instr Integer32Value object s =
     (let r = representation (hvalues s instr) in
      if r = Smi then
        Inr (set_llvm_value instr
               (Some (ConstantInt (push_bit (kSmiShift s) (scast Integer32Value)))) s)
      else if r = Integer32 then
        Inr (set_llvm_value instr (Some (ConstantInt (scast Integer32Value))) s)
      else if r = Double then Inr (UNIMPLEMENTED s)
      else if r = External then Inr (UNIMPLEMENTED s)
      else if r = Tagged then
        (case object of
           SmiObject intptr_value \<Rightarrow> Inr (set_llvm_value instr (Some (ConstantInt intptr_value)) s)
         | HeapObject \<Rightarrow> Inr (UNIMPLEMENTED s))
      else Inl UnreachableCode)"

definition DoReturn ::
  "(nat \<Rightarrow> LLVMChunkBuilder \<Rightarrow> error + LLVMChunkBuilder) \<Rightarrow> nat \<Rightarrow> nat option \<Rightarrow> LLVMChunkBuilder
     \<Rightarrow> error + LLVMChunkBuilder" where
  "DoReturn visit v parameter_count s =
     (let s1 = (if IsStub (info s) then UNIMPLEMENTED s else s);
          s2 = (if saves_caller_doubles (info s1) then UNIMPLEMENTED s1 else s1) in
      if IsStub (info s2) then Inl CheckFailed
      else case parameter_count of
        None \<Rightarrow> Inl CheckFailed
      | Some pc \<Rightarrow>
          if IsConstant (hvalues s2 pc) then
            bindE (Use_value visit v s2) (\<lambda>(ret_val, s3). Inr (Insert (Ret ret_val) s3))
          else Inr (UNIMPLEMENTED s2))"

definition DoAdd ::
  "(nat \<Rightarrow> LLVMChunkBuilder \<Rightarrow> error + LLVMChunkBuilder) \<Rightarrow> nat \<Rightarrow> nat \<Rightarrow> nat \<Rightarrow> LLVMChunkBuilder
     \<Rightarrow> error + LLVMChunkBuilder" where
  "DoAdd visit instr left right s =
     (if representation (hvalues s instr) = Integer32 \<or> representation (hvalues s instr) = Smi then
        if representation (hvalues s left) \<noteq> representation (hvalues s instr) then Inl CheckFailed
        else if representation (hvalues s right) \<noteq> representation (hvalues s instr) then Inl CheckFailed
        else
          bindE (Use_value visit left s) (\<lambda>(l, s1).
          bindE (Use_value visit right s1) (\<lambda>(r, s2).
            Inr (set_llvm_value instr (Some (Add l r)) (Insert (Add l r) s2))))
      else Inr (UNIMPLEMENTED s))"

definition DoSub :: "nat \<Rightarrow> nat \<Rightarrow> nat \<Rightarrow> LLVMChunkBuilder \<Rightarrow> error + LLVMChunkBuilder" where
  "DoSub instr left right s =
     (if representation (hvalues s instr) = Integer32 \<or> representation (hvalues s instr) = Smi then
        if representation (hvalues s left) \<noteq> representation (hvalues s instr) then Inl CheckFailed
        else if representation (hvalues s right) \<noteq> representation (hvalues s instr) then Inl CheckFailed
        else
          case llvm_value (hvalues s left) of
            None \<Rightarrow> Inl CheckFailed
          | Some l \<Rightarrow>
             (case llvm_value (hvalues s right) of
                None \<Rightarrow> Inl CheckFailed
              | Some r \<Rightarrow> Inr (set_llvm_value instr (Some (Sub l r)) (Insert (Sub l r) s)))
      else Inr (UNIMPLEMENTED s))"

definition DoMul :: "nat \<Rightarrow> nat \<Rightarrow> nat \<Rightarrow> LLVMChunkBuilder \<Rightarrow> error + LLVMChunkBuilder" where
  "DoMul instr left right s =
     (if representation (hvalues s instr) = Integer32 \<or> representation (hvalues s instr) = Smi then
        if representation (hvalues s left) \<noteq> representation (hvalues s instr) then Inl CheckFailed
        else if representation (hvalues s right) \<noteq> representation (hvalues s instr) then Inl CheckFailed
        else
          case llvm_value (hvalues s left) of
            None \<Rightarrow> Inl CheckFailed
          | Some l \<Rightarrow>
             (case llvm_value (hvalues s right) of
                None \<Rightarrow> Inl CheckFailed
              | Some r \<Rightarrow> Inr (set_llvm_value instr (Some (Mul l r)) (Insert (Mul l r) s)))
      else Inr (UNIMPLEMENTED s))"

definition DoChange ::
  "(nat \<Rightarrow> LLVMChunkBuilder \<Rightarrow> error + LLVMChunkBuilder) \<Rightarrow> nat \<Rightarrow> nat \<Rightarrow> Representation \<Rightarrow> Representation
     \<Rightarrow> LLVMChunkBuilder \<Rightarrow> error + LLVMChunkBuilder" where
  "DoChange visit instr val from to s =
     (if from = Smi \<and> to = Tagged then
        bindE (Use_value visit val s) (\<lambda>(x, s1). Inr (set_llvm_value instr (Some x) s1))
      else
        (let from = (if from = Smi then Tagged else from) in
         if from = Tagged then
           if to = Double then Inr (UNIMPLEMENTED s)
           else if to = Smi then
             bindE (Use_value visit val s) (\<lambda>(x, s1). Inr (set_llvm_value instr (Some x) s1))
           else if to \<noteq> Integer32 then Inl CheckFailed
           else if type_IsSmi (hvalues s val) \<or> representation (hvalues s val) = Smi then
             bindE (SmiToInteger32 visit val s) (\<lambda>(x, s1). Inr (set_llvm_value instr x s1))
           else
             bindE (SmiToInteger32 visit val s) (\<lambda>(x, s1). Inr (set_llvm_value instr x s1))
         else if from = Double then Inr (UNIMPLEMENTED s)
         else if from = Integer32 then
           if to = Tagged then
             if \<not> CanOverflow (hvalues s instr) then
               bindE (Integer32ToSmi visit val s) (\<lambda>(x, s1). Inr (set_llvm_value instr (Some x) s1))
             else Inr (UNIMPLEMENTED s)
           else if to = Smi then Inr (UNIMPLEMENTED s)
           else if to \<noteq> Double then Inl CheckFailed
           else Inr (UNIMPLEMENTED s)
         else Inr s))"

definition DoCompareNumericAndBranch ::
  "(nat \<Rightarrow> LLVMChunkBuilder \<Rightarrow> error + LLVMChunkBuilder) \<Rightarrow> nat \<Rightarrow> nat \<Rightarrow> nat \<Rightarrow> Token \<Rightarrow> nat \<Rightarrow> nat
     \<Rightarrow> LLVMChunkBuilder \<Rightarrow> error + LLVMChunkBuilder" where
  "DoCompareNumericAndBranch visit instr left right token succ0 succ1 s =
     (let r = representation (hvalues s instr) in
      if representation (hvalues s left) \<noteq> r then Inl CheckFailed
      else if representation (hvalues s right) \<noteq> r then Inl CheckFailed
      else
        (let is_unsigned = (r = Double \<or> Uint32 (hvalues s left) \<or> Uint32 (hvalues s right)) in
         bindE (TokenToPredicate token is_unsigned) (\<lambda>pred.
           if r = Smi then Inr (UNIMPLEMENTED s)
           else if r = Integer32 then
             bindE (Use_value visit left s) (\<lambda>(l, s1).
             bindE (Use_value visit right s1) (\<lambda>(r, s2).
               (let s3 = Insert (ICmp pred l r) s2;
                    (b0, s4) = Use_block succ0 s3;
                    (b1, s5) = Use_block succ1 s4;
                    branch = CondBr (ICmp pred l r) b0 b1
                in Inr (set_llvm_value instr (Some branch) (Insert branch s5)))))
           else if r \<noteq> Double then Inl CheckFailed
           else Inr (UNIMPLEMENTED s))))"

text \<open>\<open>current->CompileToLLVM(this)\<close>: the virtual call that reaches the opcode's handler.\<close>

definition CompileToLLVM ::
  "(nat \<Rightarrow> LLVMChunkBuilder \<Rightarrow> error + LLVMChunkBuilder) \<Rightarrow> nat \<Rightarrow> LLVMChunkBuilder
     \<Rightarrow> error + LLVMChunkBuilder" where
  "CompileToLLVM visit instr s =
     (case opcode (hvalues s instr) of
        HBlockEntry block \<Rightarrow> DoBlockEntry block s
      | HContext \<Rightarrow> DoContext instr s
      | HParameter index \<Rightarrow> DoParameter instr index s
      | HArgumentsObject \<Rightarrow> DoArgumentsObject s
      | HSimulate snapshot \<Rightarrow> DoSimulate snapshot s
      | HStackCheck \<Rightarrow> DoStackCheck s
      | HConstant i object \<Rightarrow> DoConstant instr i object s
      | HReturn v parameter_count \<Rightarrow> DoReturn visit v parameter_count s
      | HAdd left right \<Rightarrow> DoAdd visit instr left right s
      | HSub left right \<Rightarrow> DoSub instr left right s
      | HMul left right \<Rightarrow> DoMul instr left right s
      | HChange val from to \<Rightarrow> DoChange visit instr val from to s
      | HCompareNumericAndBranch left right token succ0 succ1 \<Rightarrow>
          DoCompareNumericAndBranch visit instr left right token succ0 succ1 s
      | HUnimplemented name \<Rightarrow> Inr (UNIMPLEMENTED s))"

subsection \<open>The instruction dispatcher\<close>

definition VisitInstruction_body ::
  "(nat \<Rightarrow> LLVMChunkBuilder \<Rightarrow> error + LLVMChunkBuilder) \<Rightarrow> nat \<Rightarrow> LLVMChunkBuilder
     \<Rightarrow> error + LLVMChunkBuilder" where
  "VisitInstruction_body visit current s =
     (let old_current = current_instruction' s;
          s0 = s\<lparr>current_instruction' := Some current\<rparr> in
      bindE
        (if CanReplaceWithDummyUses (hvalues s0 current) then
           bindE
             (case operands (hvalues s0 current) of
                [] \<Rightarrow> Inr (UNIMPLEMENTED s0)
              | op0 # others \<Rightarrow>
                  if IsControlInstruction (hvalues s0 op0) then Inl CheckFailed
                  else Inr (UNIMPLEMENTED s0))
             (\<lambda>s1. Inr (fold (\<lambda>op s'. if IsControlInstruction (hvalues s' op) then s' else UNIMPLEMENTED s')
                          (drop 1 (operands (hvalues s0 current))) s1))
         else
           (case (if IsControlInstruction (hvalues s0 current)
                  then KnownSuccessorBlock (hvalues s0 current) else None) of
              Some (Some successor) \<Rightarrow>
                (let (b, s1) = Use_block successor s0 in Inr (Insert (Br b) s1))
            | _ \<Rightarrow> CompileToLLVM visit current s0))
        (\<lambda>s'. Inr (s'\<lparr>current_instruction' := old_current\<rparr>)))"

text \<open>
  \<open>VisitInstruction\<close> and \<open>Use\<close> call each other, and nothing in the source bounds
  the recursion (a chain of emit-at-use operands that reaches itself never returns). The
  first argument bounds the depth of nested visits; a run that needs more ends in
  \<open>OutOfFuel\<close>.
\<close>

primrec VisitInstruction :: "nat \<Rightarrow> nat \<Rightarrow> LLVMChunkBuilder \<Rightarrow> error + LLVMChunkBuilder" where
  "VisitInstruction 0 current s = Inl OutOfFuel"
| "VisitInstruction (Suc fuel) current s = VisitInstruction_body (VisitInstruction fuel) current s"

definition Use :: "nat \<Rightarrow> nat \<Rightarrow> LLVMChunkBuilder \<Rightarrow> error + (llvm_Value \<times> LLVMChunkBuilder)" where
  "Use fuel v s = Use_value (VisitInstruction fuel) v s"

subsection \<open>The per-block driver\<close>

text \<open>The two loops of the join case: over the block's phis, then over its deleted phis.\<close>

fun join_phis :: "nat option \<Rightarrow> HPhi list \<Rightarrow> LLVMChunkBuilder \<Rightarrow> error + LLVMChunkBuilder" where
  "join_phis env [] s = Inr s"
| "join_phis env (phi # rest) s =
     bindE (case merged_index phi of
              Some index \<Rightarrow> SetValueAt env index (phi_value phi) s
            | None \<Rightarrow> Inr s)
       (join_phis env rest)"

fun join_deleted_phis :: "nat option \<Rightarrow> int list \<Rightarrow> LLVMChunkBuilder \<Rightarrow> error + LLVMChunkBuilder" where
  "join_deleted_phis env [] s = Inr s"
| "join_deleted_phis env (d # rest) s =
     bindE (env_length env s) (\<lambda>n.
     bindE (if d < n then SetValueAt env d (GetConstantUndefined (graph s)) s else Inr s)
       (join_deleted_phis env rest))"

text \<open>The environment and argument-count propagation at the head of \<open>DoBasicBlock\<close>
  (the \<open>if\<close> / \<open>else if\<close> / \<open>else\<close> on the block's classification).\<close>

definition DoBasicBlock_environment :: "nat \<Rightarrow> LLVMChunkBuilder \<Rightarrow> error + LLVMChunkBuilder" where
  "DoBasicBlock_environment block s =
     (if IsStartBlock (hblocks s block) then
        Inr ((UpdateEnvironment block (start_environment (graph s)) s)\<lparr>argument_count' := 0\<rparr>)
      else if length (predecessors (hblocks s block)) = 1 then
        if length (phis (hblocks s block)) \<noteq> 0 then Inl CheckFailed
        else
          (let pred = predecessors (hblocks s block) ! 0 in
           case last_environment (hblocks s pred) of
             None \<Rightarrow> Inl CheckFailed
           | Some env \<Rightarrow>
               bindE
                 (case SecondSuccessor (hblocks s pred) of
                    None \<Rightarrow>
                      if FirstSuccessor (hblocks s pred) \<noteq> Some block then Inl CheckFailed
                      else Inr (env, s)
                  | Some second \<Rightarrow>
                      (case FirstSuccessor (hblocks s pred) of
                         None \<Rightarrow> Inl NullDereference
                       | Some first \<Rightarrow>
                           if first > block \<or> second > block then Copy env s else Inr (env, s)))
                 (\<lambda>(env', s1).
                    (let s2 = UpdateEnvironment block (Some env') s1 in
                     if \<not> argument_count (hblocks s2 pred) \<ge> 0 then Inl CheckFailed
                     else Inr (s2\<lparr>argument_count' := argument_count (hblocks s2 pred)\<rparr>))))
      else
        (case predecessors (hblocks s block) of
           [] \<Rightarrow> Inl InvalidIndex
         | pred # others \<Rightarrow>
             (let env = last_environment (hblocks s pred) in
              bindE (join_phis env (phis (hblocks s block)) s) (\<lambda>s1.
              bindE (join_deleted_phis env (deleted_phis (hblocks s1 block)) s1) (\<lambda>s2.
                (let s3 = UpdateEnvironment block env s2 in
                 Inr (s3\<lparr>argument_count' := argument_count (hblocks s3 pred)\<rparr>)))))))"

text \<open>The \<open>while (current != NULL && !is_aborted())\<close> loop over the block's instructions.\<close>

fun DoBasicBlock_loop ::
  "(nat \<Rightarrow> LLVMChunkBuilder \<Rightarrow> error + LLVMChunkBuilder) \<Rightarrow> nat list \<Rightarrow> LLVMChunkBuilder
     \<Rightarrow> error + LLVMChunkBuilder" where
  "DoBasicBlock_loop visit [] s = Inr s"
| "DoBasicBlock_loop visit (current # rest) s =
     (if is_aborted s then Inr s
      else bindE (if \<not> EmitAtUses (hvalues s current) then visit current s else Inr s)
             (DoBasicBlock_loop visit rest))"

definition DoBasicBlock ::
  "(nat \<Rightarrow> LLVMChunkBuilder \<Rightarrow> error + LLVMChunkBuilder) \<Rightarrow> nat \<Rightarrow> nat option \<Rightarrow> LLVMChunkBuilder
     \<Rightarrow> error + LLVMChunkBuilder" where
  "DoBasicBlock visit block next s =
     (if \<not> is_building s then Inl CheckFailed
      else
        (let s1 = snd (Use_block block s);
             s2 = s1\<lparr>llvm_ir_builder' := llvm_basic_block (hblocks s1 block),
                     current_block' := Some block,
                     next_block' := next\<rparr> in
         bindE (DoBasicBlock_environment block s2) (\<lambda>s3.
         bindE (DoBasicBlock_loop visit (instructions (hblocks s3 block)) s3) (\<lambda>s4.
           Inr ((set_argument_count block (argument_count' s4) s4)
                  \<lparr>next_block' := None, current_block' := None\<rparr>)))))"

subsection \<open>Function and module assembly\<close>

text \<open>
  Modelled from the spec: the code-generation session (LLVMGranularity is declared outside
  src/). \<open>CreateModule\<close> gives a fresh module whose identifier is a number unique in the
  session; \<open>AddModule\<close> registers the finished module.
\<close>

definition CreateModule :: "LLVMChunkBuilder \<Rightarrow> LLVMChunkBuilder" where
  "CreateModule s = s\<lparr>module' := Some (granularity_count s), granularity_count := Suc (granularity_count s)\<rparr>"

definition AddModule :: "nat \<Rightarrow> LLVMChunkBuilder \<Rightarrow> LLVMChunkBuilder" where
  "AddModule m s = s\<lparr>granularity_modules := granularity_modules s @ [m], module' := None\<rparr>"

text \<open>\<open>Build\<close> up to the block loop: chunk, module, status, and the function with its
  signature. \<open>num_parameters\<close> is a C++ \<open>int\<close>: a 32-bit word, read as signed, and the
  sum with 3 wraps around. A negative size of the \<open>std::vector\<close> of parameter types is
  fatal.\<close>

definition Build_signature :: "LLVMChunkBuilder \<Rightarrow> error + LLVMChunkBuilder" where
  "Build_signature s =
     (let s1 = CreateModule (s\<lparr>chunk' := Some \<lparr>llvm_function_id = None\<rparr>\<rparr>);
          s2 = s1\<lparr>status' := BUILDING\<rparr>;
          num_params = num_parameters (info s2) + 3 in
      if num_params <s 0 then Inl LengthError
      else
        (let params = map (\<lambda>i. Int64Ty) [0..<nat (sint num_params)];
             function_type = \<lparr>return_type = Int64Ty, param_types = params, is_var_arg = False,
                              calling_conv_X86_64_V8 = False\<rparr>
         in Inr (s2\<lparr>function' := Some (function_type\<lparr>calling_conv_X86_64_V8 := True\<rparr>)\<rparr>)))"

text \<open>The block loop of \<open>Build\<close>; the flag says that \<open>return NULL\<close> was taken.\<close>

fun Build_blocks ::
  "(nat \<Rightarrow> LLVMChunkBuilder \<Rightarrow> error + LLVMChunkBuilder) \<Rightarrow> nat list \<Rightarrow> LLVMChunkBuilder
     \<Rightarrow> error + (bool \<times> LLVMChunkBuilder)" where
  "Build_blocks visit [] s = Inr (False, s)"
| "Build_blocks visit (block # rest) s =
     bindE (DoBasicBlock visit block (case rest of [] \<Rightarrow> None | next # others \<Rightarrow> Some next) s)
       (\<lambda>s'. if is_aborted s' then Inr (True, s') else Build_blocks visit rest s')"

definition Build :: "nat \<Rightarrow> LLVMChunkBuilder \<Rightarrow> error + (LLVMChunk option \<times> LLVMChunkBuilder)" where
  "Build fuel s =
     bindE (Build_signature s) (\<lambda>s1.
     bindE (Build_blocks (VisitInstruction fuel) (graph_blocks (graph s1)) s1) (\<lambda>(returned_null, s2).
       if returned_null then Inr (None, s2)
       else case module' s2 of
         None \<Rightarrow> Inl CheckFailed
       | Some m \<Rightarrow>
           (let s3 = s2\<lparr>chunk' := map_option (\<lambda>c. c\<lparr>llvm_function_id := Some m\<rparr>) (chunk' s2)\<rparr>;
                s4 = AddModule m s3;
                s5 = s4\<lparr>status' := DONE\<rparr>
            in Inr (chunk' s5, s5))))"

text \<open>\<open>LLVMChunk::NewChunk\<close>, from the builder that it constructs for the graph.\<close>

definition NewChunk :: "nat \<Rightarrow> LLVMChunkBuilder \<Rightarrow> error + (LLVMChunk option \<times> LLVMChunkBuilder)" where
  "NewChunk fuel builder =
     bindE (Build fuel builder) (\<lambda>(chunk, s).
       if chunk = None then Inr (None, s) else Inr (chunk, s))"

section \<open>What a visit leaves unchanged\<close>

text \<open>
  Two relations between a builder state and a later one, used to carry facts across the
  handlers. \<open>handler_frame\<close> holds across every handler and every visit: the
  compilation data, the target function, the chunk and module, the session, and the
  builder's current instruction, block, argument count and insertion point are the same,
  and the status is the same or has become ABORTED. \<open>unit_frame\<close> is the part of it
  that also holds across a whole block.
\<close>

definition handler_frame :: "LLVMChunkBuilder \<Rightarrow> LLVMChunkBuilder \<Rightarrow> bool" where
  "handler_frame s s' \<longleftrightarrow>
     info s' = info s \<and> graph s' = graph s \<and> SmiValuesAre32Bits s' = SmiValuesAre32Bits s \<and>
     function' s' = function' s \<and> chunk' s' = chunk' s \<and> module' s' = module' s \<and>
     granularity_count s' = granularity_count s \<and> granularity_modules s' = granularity_modules s \<and>
     current_instruction' s' = current_instruction' s \<and> current_block' s' = current_block' s \<and>
     next_block' s' = next_block' s \<and> argument_count' s' = argument_count' s \<and>
     llvm_ir_builder' s' = llvm_ir_builder' s \<and>
     (status' s' = status' s \<or> status' s' = ABORTED)"

definition visit_ok :: "(nat \<Rightarrow> LLVMChunkBuilder \<Rightarrow> error + LLVMChunkBuilder) \<Rightarrow> bool" where
  "visit_ok visit \<longleftrightarrow> (\<forall>v s s'. visit v s = Inr s' \<longrightarrow> handler_frame s s')"

definition unit_frame :: "LLVMChunkBuilder \<Rightarrow> LLVMChunkBuilder \<Rightarrow> bool" where
  "unit_frame s s' \<longleftrightarrow>
     info s' = info s \<and> graph s' = graph s \<and> SmiValuesAre32Bits s' = SmiValuesAre32Bits s \<and>
     function' s' = function' s \<and> chunk' s' = chunk' s \<and> module' s' = module' s \<and>
     granularity_count s' = granularity_count s \<and> granularity_modules s' = granularity_modules s \<and>
     (status' s' = status' s \<or> status' s' = ABORTED)"

section \<open>Concrete graphs\<close>

text \<open>Small graphs and builder states on which the theorems below are exercised.\<close>

definition no_instruction :: HValue where
  "no_instruction =
     \<lparr>opcode = HStackCheck, representation = Tagged, EmitAtUses = False, llvm_value = None,
      CanOverflow = False, Uint32 = False, type_IsSmi = False, HasNoUses = False,
      CanReplaceWithDummyUses = False, operands = [], IsControlInstruction = False,
      KnownSuccessorBlock = None\<rparr>"

definition no_block :: HBasicBlock where
  "no_block =
     \<lparr>IsStartBlock = False, predecessors = [], phis = [], deleted_phis = [], instructions = [],
      end_successors = [], last_environment = None, argument_count = 0, llvm_basic_block = None\<rparr>"

definition new_builder :: LLVMChunkBuilder where
  "new_builder =
     \<lparr>info = \<lparr>num_parameters = 2, IsStub = False, saves_caller_doubles = False\<rparr>,
      graph = \<lparr>graph_blocks = [], start_environment = Some 0, GetConstantUndefined = 0\<rparr>,
      SmiValuesAre32Bits = True,
      hvalues = (\<lambda>v. no_instruction),
      hblocks = (\<lambda>b. no_block),
      environments = [[]],
      status' = BUILDING,
      current_instruction' = None,
      current_block' = None,
      next_block' = None,
      argument_count' = 0,
      chunk' = None,
      module' = None,
      function' = None,
      llvm_ir_builder' = None,
      emitted = [],
      created_blocks = 0,
      granularity_count = 0,
      granularity_modules = []\<rparr>"

definition typeof_builder :: LLVMChunkBuilder where
  "typeof_builder =
     new_builder
       \<lparr>graph := \<lparr>graph_blocks = [0, 1], start_environment = Some 0, GetConstantUndefined = 0\<rparr>,
        hvalues := (hvalues new_builder)(1 := no_instruction\<lparr>opcode := HUnimplemented ''Typeof''\<rparr>),
        hblocks := (hblocks new_builder)
          (0 := no_block\<lparr>IsStartBlock := True, instructions := [1], end_successors := [1]\<rparr>,
           1 := no_block\<lparr>predecessors := [0]\<rparr>)\<rparr>"

definition string_return_builder :: LLVMChunkBuilder where
  "string_return_builder =
     new_builder
       \<lparr>graph := \<lparr>graph_blocks = [0], start_environment = Some 0, GetConstantUndefined = 0\<rparr>,
        hvalues := (hvalues new_builder)
          (1 := no_instruction\<lparr>opcode := HConstant 0 HeapObject, EmitAtUses := True\<rparr>,
           2 := no_instruction\<lparr>opcode := HConstant 2 (SmiObject 0), representation := Integer32,
                                 EmitAtUses := True\<rparr>,
           3 := no_instruction\<lparr>opcode := HReturn 1 (Some 2), IsControlInstruction := True\<rparr>),
        hblocks := (hblocks new_builder)
          (0 := no_block\<lparr>IsStartBlock := True, instructions := [1, 2, 3]\<rparr>)\<rparr>"

definition signed_builder :: LLVMChunkBuilder where
  "signed_builder =
     new_builder
       \<lparr>function' := Some \<lparr>return_type = Int64Ty,
                             param_types = [Int64Ty, Int64Ty, Int64Ty, Int64Ty, Int64Ty],
                             is_var_arg = False, calling_conv_X86_64_V8 = True\<rparr>,
        llvm_ir_builder' := Some 0\<rparr>"

definition arith_builder :: LLVMChunkBuilder where
  "arith_builder =
     signed_builder
       \<lparr>current_instruction' := Some 7,
        hvalues := (hvalues signed_builder)
          (1 := no_instruction\<lparr>opcode := HParameter 1, representation := Integer32,
                                 llvm_value := Some (Argument 3)\<rparr>,
           2 := no_instruction\<lparr>opcode := HConstant 1 (SmiObject 0), representation := Integer32,
                                 EmitAtUses := True\<rparr>,
           3 := no_instruction\<lparr>opcode := HSub 1 2, representation := Integer32\<rparr>,
           4 := no_instruction\<lparr>opcode := HAdd 1 2, representation := Integer32\<rparr>,
           5 := no_instruction\<lparr>opcode := HMul 1 2, representation := Integer32\<rparr>)\<rparr>"

definition fork_builder :: LLVMChunkBuilder where
  "fork_builder =
     new_builder
       \<lparr>graph := \<lparr>graph_blocks = [0, 1, 2], start_environment = Some 0, GetConstantUndefined = 0\<rparr>,
        environments := [[10, 11]],
        hblocks := (hblocks new_builder)
          (0 := no_block\<lparr>IsStartBlock := True, end_successors := [1, 2], last_environment := Some 0,
                          argument_count := 3\<rparr>,
           1 := no_block\<lparr>predecessors := [0]\<rparr>,
           2 := no_block\<lparr>predecessors := [0]\<rparr>)\<rparr>"

definition join_builder :: LLVMChunkBuilder where
  "join_builder =
     new_builder
       \<lparr>graph := \<lparr>graph_blocks = [0, 1, 2, 3], start_environment = Some 0, GetConstantUndefined = 99\<rparr>,
        environments := [[10, 11, 12], [10, 13, 12]],
        hblocks := (hblocks new_builder)
          (1 := no_block\<lparr>predecessors := [0], end_successors := [3], last_environment := Some 0,
                          argument_count := 4\<rparr>,
           2 := no_block\<lparr>predecessors := [0], end_successors := [3], last_environment := Some 1,
                          argument_count := 4\<rparr>,
           3 := no_block\<lparr>predecessors := [1, 2],
                          phis := [\<lparr>phi_value = 20, merged_index = Some 1\<rparr>,
                                   \<lparr>phi_value = 21, merged_index = None\<rparr>],
                          deleted_phis := [2, 7]\<rparr>)\<rparr>"

definition change_builder :: LLVMChunkBuilder where
  "change_builder =
     signed_builder
       \<lparr>hvalues := (hvalues signed_builder)
          (1 := no_instruction\<lparr>opcode := HConstant (- 1) (SmiObject 0), representation := Integer32,
                                 EmitAtUses := True\<rparr>,
           2 := no_instruction\<lparr>opcode := HChange 1 Integer32 Tagged, representation := Tagged\<rparr>,
           3 := no_instruction\<lparr>opcode := HChange 2 Tagged Integer32, representation := Integer32\<rparr>,
           6 := no_instruction\<lparr>opcode := HParameter 1, llvm_value := Some (Argument 3)\<rparr>,
           7 := no_instruction\<lparr>opcode := HChange 6 Tagged Integer32, representation := Integer32\<rparr>,
           9 := no_instruction\<lparr>opcode := HChange 6 Integer32 Tagged, CanOverflow := True\<rparr>)\<rparr>"


definition add_builder :: LLVMChunkBuilder where
  "add_builder =
     new_builder
       \<lparr>graph := \<lparr>graph_blocks = [0], start_environment = Some 0, GetConstantUndefined = 0\<rparr>,
        hvalues := (hvalues new_builder)
          (10 := no_instruction\<lparr>opcode := HBlockEntry 0\<rparr>,
           11 := no_instruction\<lparr>opcode := HParameter 1\<rparr>,
           12 := no_instruction\<lparr>opcode := HParameter 2\<rparr>,
           13 := no_instruction\<lparr>opcode := HChange 11 Tagged Integer32, representation := Integer32\<rparr>,
           14 := no_instruction\<lparr>opcode := HChange 12 Tagged Integer32, representation := Integer32\<rparr>,
           15 := no_instruction\<lparr>opcode := HAdd 13 14, representation := Integer32\<rparr>,
           16 := no_instruction\<lparr>opcode := HChange 15 Integer32 Tagged\<rparr>,
           17 := no_instruction\<lparr>opcode := HConstant 2 (SmiObject 0), representation := Integer32,
                                  EmitAtUses := True\<rparr>,
           18 := no_instruction\<lparr>opcode := HReturn 16 (Some 17), IsControlInstruction := True\<rparr>),
        hblocks := (hblocks new_builder)
          (0 := no_block\<lparr>IsStartBlock := True,
                          instructions := [10, 11, 12, 13, 14, 15, 16, 17, 18]\<rparr>)\<rparr>"

section \<open>Properties\<close>

subsection \<open>Frame lemmas\<close>

lemma frame_refl [simp]: "handler_frame s s"
  by (simp add: handler_frame_def)

lemma frame_trans: "handler_frame a b \<Longrightarrow> handler_frame b c \<Longrightarrow> handler_frame a c"
  unfolding handler_frame_def by (elim conjE, intro conjI) auto

lemma frame_set_llvm_value [simp]: "handler_frame a (set_llvm_value i x b) = handler_frame a b"
  by (simp add: handler_frame_def set_llvm_value_def)

lemma frame_Insert [simp]: "handler_frame a (Insert i b) = handler_frame a b"
  by (simp add: handler_frame_def Insert_def)

lemma frame_Use_block [simp]: "handler_frame a (snd (Use_block blk b)) = handler_frame a b"
  by (simp add: handler_frame_def Use_block_def split: option.splits)

lemma frame_UNIMPLEMENTED [simp]: "handler_frame a b \<Longrightarrow> handler_frame a (UNIMPLEMENTED b)"
  by (simp add: handler_frame_def UNIMPLEMENTED_def)

lemma frame_SetValueAt: "SetValueAt env i v s = Inr s' \<Longrightarrow> handler_frame s s'"
  by (auto simp: SetValueAt_def handler_frame_def split: option.splits if_splits)

lemma frame_Use_value:
  assumes "visit_ok visit" and "Use_value visit v s = Inr (x, s')"
  shows "handler_frame s s'"
  using assms
  by (auto simp: Use_value_def visit_ok_def bindE_def split: sum.splits if_splits option.splits)

lemma frame_SmiToInteger32:
  assumes "visit_ok visit" and "SmiToInteger32 visit v s = Inr (x, s')"
  shows "handler_frame s s'"
  using assms
  by (auto simp: SmiToInteger32_def bindE_def split: sum.splits if_splits dest: frame_Use_value)

lemma frame_Integer32ToSmi:
  assumes "visit_ok visit" and "Integer32ToSmi visit v s = Inr (x, s')"
  shows "handler_frame s s'"
  using assms
  by (auto simp: Integer32ToSmi_def bindE_def split: sum.splits if_splits dest: frame_Use_value)

lemma frame_ReplayEnvironment:
  "ReplayEnvironment snapshot env s = Inr s' \<Longrightarrow> handler_frame s s'"
proof (induction snapshot arbitrary: s)
  case Nil
  then show ?case by simp
next
  case (Cons b rest)
  obtain index v where b: "b = (index, v)" by (cases b)
  from Cons.prems obtain s1 where s1: "SetValueAt env index v s = Inr s1"
    and rest: "ReplayEnvironment rest env s1 = Inr s'"
    by (auto simp: b bindE_def split: sum.splits)
  show ?case
    using frame_SetValueAt [OF s1] Cons.IH [OF rest] by (rule frame_trans)
qed

lemma frame_DoAdd:
  assumes "visit_ok visit" and "DoAdd visit instr left right s = Inr s'"
  shows "handler_frame s s'"
proof (cases "representation (hvalues s instr) = Integer32 \<or> representation (hvalues s instr) = Smi")
  case False
  with assms(2) show ?thesis by (auto simp: DoAdd_def)
next
  case True
  with assms(2) obtain l s1 r s2
    where l: "Use_value visit left s = Inr (l, s1)"
      and r: "Use_value visit right s1 = Inr (r, s2)"
      and s': "s' = set_llvm_value instr (Some (Add l r)) (Insert (Add l r) s2)"
    by (auto simp: DoAdd_def bindE_def split: sum.splits if_splits)
  have "handler_frame s s2"
    using frame_Use_value [OF assms(1) l] frame_Use_value [OF assms(1) r] by (rule frame_trans)
  then show ?thesis by (simp add: s')
qed


lemma frame_DoSub: "DoSub instr left right s = Inr s' \<Longrightarrow> handler_frame s s'"
  by (auto simp: DoSub_def split: if_splits option.splits)

lemma frame_DoMul: "DoMul instr left right s = Inr s' \<Longrightarrow> handler_frame s s'"
  by (auto simp: DoMul_def split: if_splits option.splits)

lemma frame_DoBlockEntry: "DoBlockEntry block s = Inr s' \<Longrightarrow> handler_frame s s'"
  by (auto simp: DoBlockEntry_def)

lemma frame_DoContext: "DoContext instr s = Inr s' \<Longrightarrow> handler_frame s s'"
  by (auto simp: DoContext_def split: if_splits)

lemma frame_DoParameter: "DoParameter instr index s = Inr s' \<Longrightarrow> handler_frame s s'"
  by (auto simp: DoParameter_def Let_def split: if_splits option.splits)

lemma frame_DoSimulate: "DoSimulate snapshot s = Inr s' \<Longrightarrow> handler_frame s s'"
  by (auto simp: DoSimulate_def split: option.splits dest: frame_ReplayEnvironment)

lemma frame_DoConstant: "DoConstant instr i object s = Inr s' \<Longrightarrow> handler_frame s s'"
  by (auto simp: DoConstant_def Let_def split: if_splits Object.splits)

lemma frame_DoReturn:
  assumes "visit_ok visit" and "DoReturn visit v parameter_count s = Inr s'"
  shows "handler_frame s s'"
proof -
  define s2 where "s2 = (if saves_caller_doubles (info (if IsStub (info s) then UNIMPLEMENTED s else s))
                         then UNIMPLEMENTED (if IsStub (info s) then UNIMPLEMENTED s else s)
                         else (if IsStub (info s) then UNIMPLEMENTED s else s))"
  have s2: "handler_frame s s2"
    by (simp add: s2_def)
  from assms(2) have "s' = UNIMPLEMENTED s2 \<or> (\<exists>x s3. Use_value visit v s2 = Inr (x, s3) \<and> s' = Insert (Ret x) s3)"
    unfolding DoReturn_def Let_def s2_def [symmetric]
    by (auto simp: bindE_def split: if_splits option.splits sum.splits)
  then show ?thesis
  proof
    assume "s' = UNIMPLEMENTED s2"
    with s2 show ?thesis by simp
  next
    assume "\<exists>x s3. Use_value visit v s2 = Inr (x, s3) \<and> s' = Insert (Ret x) s3"
    then obtain x s3 where u: "Use_value visit v s2 = Inr (x, s3)" and s': "s' = Insert (Ret x) s3"
      by blast
    have "handler_frame s s3"
      using s2 frame_Use_value [OF assms(1) u] by (rule frame_trans)
    then show ?thesis by (simp add: s')
  qed
qed

lemma frame_DoChange:
  assumes "visit_ok visit" and "DoChange visit instr val from to s = Inr s'"
  shows "handler_frame s s'"
proof -
  from assms(2) have
    "s' = s \<or> s' = UNIMPLEMENTED s
     \<or> (\<exists>x s1. Use_value visit val s = Inr (x, s1) \<and> s' = set_llvm_value instr (Some x) s1)
     \<or> (\<exists>x s1. SmiToInteger32 visit val s = Inr (x, s1) \<and> s' = set_llvm_value instr x s1)
     \<or> (\<exists>x s1. Integer32ToSmi visit val s = Inr (x, s1) \<and> s' = set_llvm_value instr (Some x) s1)"
    unfolding DoChange_def Let_def
    by (auto simp: bindE_def split: if_splits sum.splits)
  then show ?thesis
    using frame_Use_value [OF assms(1)] frame_SmiToInteger32 [OF assms(1)]
      frame_Integer32ToSmi [OF assms(1)]
    by (elim disjE exE conjE) simp_all
qed

lemma frame_DoCompareNumericAndBranch:
  assumes "visit_ok visit"
    and "DoCompareNumericAndBranch visit instr left right token succ0 succ1 s = Inr s'"
  shows "handler_frame s s'"
proof -
  from assms(2) have
    "s' = UNIMPLEMENTED s
     \<or> (\<exists>l s1 r s2 p. Use_value visit left s = Inr (l, s1) \<and> Use_value visit right s1 = Inr (r, s2)
          \<and> s' = set_llvm_value instr
                   (Some (CondBr (ICmp p l r)
                      (fst (Use_block succ0 (Insert (ICmp p l r) s2)))
                      (fst (Use_block succ1 (snd (Use_block succ0 (Insert (ICmp p l r) s2)))))))
                   (Insert (CondBr (ICmp p l r)
                      (fst (Use_block succ0 (Insert (ICmp p l r) s2)))
                      (fst (Use_block succ1 (snd (Use_block succ0 (Insert (ICmp p l r) s2))))))
                      (snd (Use_block succ1 (snd (Use_block succ0 (Insert (ICmp p l r) s2)))))))"
    unfolding DoCompareNumericAndBranch_def Let_def
    by (auto simp: bindE_def case_prod_beta split: if_splits sum.splits)
  then show ?thesis
  proof (elim disjE exE conjE)
    assume "s' = UNIMPLEMENTED s"
    then show ?thesis by simp
  next
    fix l s1 r s2 p
    assume l: "Use_value visit left s = Inr (l, s1)" and r: "Use_value visit right s1 = Inr (r, s2)"
      and s': "s' = set_llvm_value instr
                   (Some (CondBr (ICmp p l r)
                      (fst (Use_block succ0 (Insert (ICmp p l r) s2)))
                      (fst (Use_block succ1 (snd (Use_block succ0 (Insert (ICmp p l r) s2)))))))
                   (Insert (CondBr (ICmp p l r)
                      (fst (Use_block succ0 (Insert (ICmp p l r) s2)))
                      (fst (Use_block succ1 (snd (Use_block succ0 (Insert (ICmp p l r) s2))))))
                      (snd (Use_block succ1 (snd (Use_block succ0 (Insert (ICmp p l r) s2))))))"
    have "handler_frame s s2"
      using frame_Use_value [OF assms(1) l] frame_Use_value [OF assms(1) r] by (rule frame_trans)
    then show ?thesis by (simp add: s')
  qed
qed

lemma frame_CompileToLLVM:
  assumes "visit_ok visit" and "CompileToLLVM visit instr s = Inr s'"
  shows "handler_frame s s'"
  using assms(2) unfolding CompileToLLVM_def
  by (cases "opcode (hvalues s instr)")
     (auto simp: DoArgumentsObject_def DoStackCheck_def
        dest: frame_DoBlockEntry frame_DoContext frame_DoParameter frame_DoSimulate frame_DoConstant
          frame_DoReturn [OF assms(1)] frame_DoAdd [OF assms(1)] frame_DoSub frame_DoMul
          frame_DoChange [OF assms(1)] frame_DoCompareNumericAndBranch [OF assms(1)])


lemma frame_dummy_uses:
  "handler_frame a b \<Longrightarrow>
   handler_frame a (fold (\<lambda>op s'. if IsControlInstruction (hvalues s' op) then s' else UNIMPLEMENTED s') ops b)"
  by (induction ops arbitrary: b) simp_all

lemma frame_restore_current:
  "handler_frame (s\<lparr>current_instruction' := c\<rparr>) s1 \<Longrightarrow>
   handler_frame s (s1\<lparr>current_instruction' := current_instruction' s\<rparr>)"
  by (simp add: handler_frame_def)

lemma frame_VisitInstruction_body:
  assumes "visit_ok visit" and "VisitInstruction_body visit current s = Inr s'"
  shows "handler_frame s s'"
proof -
  define s0 where "s0 = s\<lparr>current_instruction' := Some current\<rparr>"
  from assms(2) obtain s1 where s': "s' = s1\<lparr>current_instruction' := current_instruction' s\<rparr>"
    and s1: "s1 = fold (\<lambda>op s'. if IsControlInstruction (hvalues s' op) then s' else UNIMPLEMENTED s')
                    (drop 1 (operands (hvalues s0 current))) (UNIMPLEMENTED s0)
             \<or> (\<exists>successor. s1 = Insert (Br (fst (Use_block successor s0))) (snd (Use_block successor s0)))
             \<or> CompileToLLVM visit current s0 = Inr s1"
    unfolding VisitInstruction_body_def Let_def s0_def [symmetric]
    by (auto simp: bindE_def case_prod_beta split: sum.splits if_splits list.splits option.splits)
  from s1 have "handler_frame s0 s1"
    using frame_CompileToLLVM [OF assms(1)] by (auto intro: frame_dummy_uses)
  then show ?thesis
    unfolding s' s0_def by (rule frame_restore_current)
qed

lemma visit_ok_VisitInstruction: "visit_ok (VisitInstruction fuel)"
proof (induction fuel)
  case 0
  show ?case by (simp add: visit_ok_def)
next
  case (Suc fuel)
  show ?case
    unfolding visit_ok_def using frame_VisitInstruction_body [OF Suc] by simp
qed

lemma frame_DoBasicBlock_loop:
  assumes "visit_ok visit"
  shows "DoBasicBlock_loop visit is s = Inr s' \<Longrightarrow> handler_frame s s'"
proof (induction "is" arbitrary: s)
  case Nil
  then show ?case by simp
next
  case (Cons current rest)
  show ?case
  proof (cases "is_aborted s")
    case True
    with Cons.prems show ?thesis by simp
  next
    case False
    with Cons.prems obtain s1
      where s1: "(if \<not> EmitAtUses (hvalues s current) then visit current s else Inr s) = Inr s1"
        and rest: "DoBasicBlock_loop visit rest s1 = Inr s'"
      by (auto simp: bindE_def split: sum.splits)
    have "handler_frame s s1"
      using s1 assms by (auto simp: visit_ok_def split: if_splits)
    then show ?thesis
      using Cons.IH [OF rest] by (rule frame_trans)
  qed
qed

lemma unit_frame_refl [simp]: "unit_frame s s"
  by (simp add: unit_frame_def)

lemma unit_frame_trans: "unit_frame a b \<Longrightarrow> unit_frame b c \<Longrightarrow> unit_frame a c"
  unfolding unit_frame_def by (elim conjE, intro conjI) auto

lemma handler_frame_unit: "handler_frame s s' \<Longrightarrow> unit_frame s s'"
  by (simp add: handler_frame_def unit_frame_def)

lemma unit_frame_fields [simp]:
  "unit_frame a (b\<lparr>hblocks := hb\<rparr>) = unit_frame a b"
  "unit_frame a (b\<lparr>environments := e\<rparr>) = unit_frame a b"
  "unit_frame a (b\<lparr>argument_count' := n\<rparr>) = unit_frame a b"
  "unit_frame a (b\<lparr>llvm_ir_builder' := i\<rparr>) = unit_frame a b"
  "unit_frame a (b\<lparr>current_block' := cb\<rparr>) = unit_frame a b"
  "unit_frame a (b\<lparr>next_block' := nb\<rparr>) = unit_frame a b"
  "unit_frame a (b\<lparr>created_blocks := k\<rparr>) = unit_frame a b"
  by (simp_all add: unit_frame_def)

lemma unit_frame_SetValueAt: "SetValueAt env i v s = Inr s' \<Longrightarrow> unit_frame s s'"
  by (rule handler_frame_unit [OF frame_SetValueAt])

lemma unit_frame_join_phis: "join_phis env ps s = Inr s' \<Longrightarrow> unit_frame s s'"
proof (induction ps arbitrary: s)
  case Nil
  then show ?case by simp
next
  case (Cons phi rest)
  from Cons.prems obtain s1
    where s1: "(case merged_index phi of Some index \<Rightarrow> SetValueAt env index (phi_value phi) s
                | None \<Rightarrow> Inr s) = Inr s1"
      and rest: "join_phis env rest s1 = Inr s'"
    by (auto simp: bindE_def split: sum.splits)
  have "unit_frame s s1"
    using s1 by (auto split: option.splits dest: unit_frame_SetValueAt)
  then show ?case using Cons.IH [OF rest] by (rule unit_frame_trans)
qed

lemma unit_frame_join_deleted_phis: "join_deleted_phis env ds s = Inr s' \<Longrightarrow> unit_frame s s'"
proof (induction ds arbitrary: s)
  case Nil
  then show ?case by simp
next
  case (Cons d rest)
  from Cons.prems obtain n s1
    where s1: "(if d < n then SetValueAt env d (GetConstantUndefined (graph s)) s else Inr s) = Inr s1"
      and rest: "join_deleted_phis env rest s1 = Inr s'"
    by (auto simp: bindE_def split: sum.splits)
  have "unit_frame s s1"
    using s1 by (auto split: if_splits dest: unit_frame_SetValueAt)
  then show ?case using Cons.IH [OF rest] by (rule unit_frame_trans)
qed

lemma unit_frame_Copy: "Copy a s = Inr (a', s') \<Longrightarrow> unit_frame s s'"
  by (auto simp: Copy_def split: if_splits)

lemma unit_frame_UpdateEnvironment [simp]: "unit_frame a (UpdateEnvironment b env s) = unit_frame a s"
  by (simp add: UpdateEnvironment_def)

lemma unit_frame_DoBasicBlock_environment:
  assumes "DoBasicBlock_environment block s = Inr s'"
  shows "unit_frame s s'"
proof (cases "IsStartBlock (hblocks s block)")
  case True
  with assms show ?thesis by (auto simp: DoBasicBlock_environment_def)
next
  case False
  note not_start = this
  show ?thesis
  proof (cases "length (predecessors (hblocks s block)) = 1")
    case True
    with assms not_start show ?thesis
      unfolding DoBasicBlock_environment_def Let_def
      by (auto simp: bindE_def split: if_splits option.splits sum.splits dest!: unit_frame_Copy)
  next
    case False
    with assms not_start obtain pred s1 s2
      where 1: "join_phis (last_environment (hblocks s pred)) (phis (hblocks s block)) s = Inr s1"
        and 2: "join_deleted_phis (last_environment (hblocks s pred)) (deleted_phis (hblocks s1 block)) s1 = Inr s2"
        and 3: "s' = (UpdateEnvironment block (last_environment (hblocks s pred)) s2)
                       \<lparr>argument_count' := argument_count
                          (hblocks (UpdateEnvironment block (last_environment (hblocks s pred)) s2) pred)\<rparr>"
      unfolding DoBasicBlock_environment_def Let_def
      by (auto simp: bindE_def split: sum.splits list.splits)
    have "unit_frame s s2"
      using unit_frame_join_phis [OF 1] unit_frame_join_deleted_phis [OF 2] by (rule unit_frame_trans)
    then show ?thesis by (simp add: 3)
  qed
qed

lemma unit_frame_Use_block [simp]: "unit_frame a (snd (Use_block blk b)) = unit_frame a b"
  by (simp add: unit_frame_def Use_block_def split: option.splits)

lemma unit_frame_DoBasicBlock:
  assumes "visit_ok visit" and "DoBasicBlock visit block next s = Inr s'"
  shows "unit_frame s s'"
proof -
  define s2 where "s2 = (snd (Use_block block s))\<lparr>llvm_ir_builder' := llvm_basic_block (hblocks (snd (Use_block block s)) block),
                     current_block' := Some block, next_block' := next\<rparr>"
  from assms(2) obtain s3 s4
    where 3: "DoBasicBlock_environment block s2 = Inr s3"
      and 4: "DoBasicBlock_loop visit (instructions (hblocks s3 block)) s3 = Inr s4"
      and s': "s' = (set_argument_count block (argument_count' s4) s4)\<lparr>next_block' := None, current_block' := None\<rparr>"
    unfolding DoBasicBlock_def Let_def s2_def [symmetric]
    by (auto simp: bindE_def split: if_splits sum.splits)
  have "unit_frame s s2" by (simp add: s2_def)
  then have "unit_frame s s3"
    using unit_frame_DoBasicBlock_environment [OF 3] by (rule unit_frame_trans)
  then have "unit_frame s s4"
    using handler_frame_unit [OF frame_DoBasicBlock_loop [OF assms(1) 4]] by (rule unit_frame_trans)
  then show ?thesis by (simp add: s' set_argument_count_def)
qed


lemma unit_frame_aborted: "unit_frame s s' \<Longrightarrow> is_aborted s \<Longrightarrow> is_aborted s'"
  by (auto simp: unit_frame_def is_aborted_def)

lemma DoBasicBlock_loop_aborted: "is_aborted s \<Longrightarrow> DoBasicBlock_loop visit is s = Inr s"
  by (cases "is") simp_all

lemma Build_blocks_flag:
  "\<not> is_aborted s \<Longrightarrow> Build_blocks visit bs s = Inr (flag, s') \<Longrightarrow> flag = is_aborted s'"
proof (induction bs arbitrary: s)
  case Nil
  then show ?case by simp
next
  case (Cons block rest)
  from Cons.prems(2) obtain s1
    where s1: "DoBasicBlock visit block (case rest of [] \<Rightarrow> None | next # others \<Rightarrow> Some next) s = Inr s1"
      and rest: "(if is_aborted s1 then Inr (True, s1) else Build_blocks visit rest s1) = Inr (flag, s')"
    by (auto simp: bindE_def split: sum.splits)
  show ?case
  proof (cases "is_aborted s1")
    case True
    with rest show ?thesis by simp
  next
    case False
    with rest have "Build_blocks visit rest s1 = Inr (flag, s')" by simp
    with False show ?thesis by (rule Cons.IH)
  qed
qed

lemma unit_frame_Build_blocks:
  assumes "visit_ok visit"
  shows "Build_blocks visit bs s = Inr (flag, s') \<Longrightarrow> unit_frame s s'"
proof (induction bs arbitrary: s)
  case Nil
  then show ?case by simp
next
  case (Cons block rest)
  from Cons.prems obtain s1
    where s1: "DoBasicBlock visit block (case rest of [] \<Rightarrow> None | next # others \<Rightarrow> Some next) s = Inr s1"
      and rest: "(if is_aborted s1 then Inr (True, s1) else Build_blocks visit rest s1) = Inr (flag, s')"
    by (auto simp: bindE_def split: sum.splits)
  have 1: "unit_frame s s1"
    by (rule unit_frame_DoBasicBlock [OF assms s1])
  show ?case
  proof (cases "is_aborted s1")
    case True
    with rest 1 show ?thesis by simp
  next
    case False
    with rest have "Build_blocks visit rest s1 = Inr (flag, s')" by simp
    from 1 Cons.IH [OF this] show ?thesis by (rule unit_frame_trans)
  qed
qed

lemma Build_signature_result:
  assumes "Build_signature s = Inr s1"
  shows "status' s1 = BUILDING \<and> chunk' s1 = Some \<lparr>llvm_function_id = None\<rparr>
       \<and> module' s1 = Some (granularity_count s) \<and> granularity_modules s1 = granularity_modules s
       \<and> info s1 = info s \<and> graph s1 = graph s
       \<and> function' s1 = Some \<lparr>return_type = Int64Ty,
            param_types = map (\<lambda>i. Int64Ty) [0..<nat (sint (num_parameters (info s) + 3))],
            is_var_arg = False, calling_conv_X86_64_V8 = True\<rparr>"
  using assms unfolding Build_signature_def Let_def CreateModule_def
  by (auto split: if_splits)

lemma Build_result:
  assumes "Build fuel s = Inr (r, s')"
  shows "(r = None) = is_aborted s'
       \<and> (is_aborted s' \<longrightarrow> granularity_modules s' = granularity_modules s)
       \<and> (\<not> is_aborted s' \<longrightarrow> status' s' = DONE
             \<and> r = Some \<lparr>llvm_function_id = Some (granularity_count s)\<rparr>
             \<and> granularity_modules s' = granularity_modules s @ [granularity_count s])
       \<and> function' s' = Some \<lparr>return_type = Int64Ty,
            param_types = map (\<lambda>i. Int64Ty) [0..<nat (sint (num_parameters (info s) + 3))],
            is_var_arg = False, calling_conv_X86_64_V8 = True\<rparr>"
proof -
  from assms obtain s1 flag s2
    where 1: "Build_signature s = Inr s1"
      and 2: "Build_blocks (VisitInstruction fuel) (graph_blocks (graph s1)) s1 = Inr (flag, s2)"
      and 3: "(if flag then Inr (None, s2)
               else case module' s2 of
                 None \<Rightarrow> Inl CheckFailed
               | Some m \<Rightarrow> Inr (chunk' ((AddModule m (s2\<lparr>chunk' := map_option (\<lambda>c. c\<lparr>llvm_function_id := Some m\<rparr>) (chunk' s2)\<rparr>))\<lparr>status' := DONE\<rparr>),
                               (AddModule m (s2\<lparr>chunk' := map_option (\<lambda>c. c\<lparr>llvm_function_id := Some m\<rparr>) (chunk' s2)\<rparr>))\<lparr>status' := DONE\<rparr>))
              = Inr (r, s')"
    unfolding Build_def Let_def by (auto simp: bindE_def split: sum.splits)
  note sig = Build_signature_result [OF 1]
  have building: "\<not> is_aborted s1"
    using sig by (simp add: is_aborted_def)
  have flag: "flag = is_aborted s2"
    using building 2 by (rule Build_blocks_flag)
  have frame: "unit_frame s1 s2"
    using visit_ok_VisitInstruction 2 by (rule unit_frame_Build_blocks)
  show ?thesis
  proof (cases flag)
    case True
    with 3 have "r = None" "s' = s2" by simp_all
    with True flag frame sig show ?thesis by (simp add: unit_frame_def)
  next
    case False
    have m: "module' s2 = Some (granularity_count s)" and c: "chunk' s2 = Some \<lparr>llvm_function_id = None\<rparr>"
      using frame sig by (simp_all add: unit_frame_def)
    from False 3 m c show ?thesis
      using frame sig by (auto simp: AddModule_def is_aborted_def unit_frame_def)
  qed
qed

subsection \<open>More fuel changes no result\<close>

text \<open>A visit that returns with some fuel returns the same with more: the bound on
  nested visits decides only between a result and \<open>OutOfFuel\<close>.\<close>

lemma bindE_Inr: "bindE m f = Inr r \<longleftrightarrow> (\<exists>x. m = Inr x \<and> f x = Inr r)"
  by (cases m) (simp_all add: bindE_def)

lemma Use_value_mono:
  assumes "\<forall>c s r. visit c s = Inr r \<longrightarrow> visit' c s = Inr r"
    and "Use_value visit v s = Inr r"
  shows "Use_value visit' v s = Inr r"
proof (cases "EmitAtUses (hvalues s v) \<and> llvm_value (hvalues s v) = None")
  case True
  with assms(2) obtain s1 where 1: "visit v s = Inr s1"
    and 2: "(case llvm_value (hvalues s1 v) of None \<Rightarrow> Inl CheckFailed | Some x \<Rightarrow> Inr (x, s1)) = Inr r"
    by (auto simp: Use_value_def bindE_Inr)
  from assms(1) 1 have "visit' v s = Inr s1" by blast
  with 2 True show ?thesis
    by (simp add: Use_value_def bindE_def)
next
  case False
  with assms(2) show ?thesis
    by (auto simp: Use_value_def)
qed

lemma SmiToInteger32_mono:
  assumes "\<forall>c s r. visit c s = Inr r \<longrightarrow> visit' c s = Inr r"
    and "SmiToInteger32 visit v s = Inr r"
  shows "SmiToInteger32 visit' v s = Inr r"
  using assms(2) Use_value_mono [OF assms(1)]
  by (auto simp: SmiToInteger32_def bindE_Inr split: if_splits)

lemma Integer32ToSmi_mono:
  assumes "\<forall>c s r. visit c s = Inr r \<longrightarrow> visit' c s = Inr r"
    and "Integer32ToSmi visit v s = Inr r"
  shows "Integer32ToSmi visit' v s = Inr r"
  using assms(2) Use_value_mono [OF assms(1)]
  by (auto simp: Integer32ToSmi_def bindE_Inr)

lemma DoReturn_mono:
  assumes "\<forall>c s r. visit c s = Inr r \<longrightarrow> visit' c s = Inr r"
    and "DoReturn visit v pc s = Inr r"
  shows "DoReturn visit' v pc s = Inr r"
  using assms(2) Use_value_mono [OF assms(1)]
  by (auto simp: DoReturn_def Let_def bindE_Inr split: if_splits option.splits)

lemma DoAdd_mono:
  assumes "\<forall>c s r. visit c s = Inr r \<longrightarrow> visit' c s = Inr r"
    and "DoAdd visit instr left right s = Inr r"
  shows "DoAdd visit' instr left right s = Inr r"
proof (cases "representation (hvalues s instr) = Integer32 \<or> representation (hvalues s instr) = Smi")
  case False
  with assms(2) show ?thesis by (auto simp: DoAdd_def)
next
  case True
  with assms(2) obtain l s1 rv s2
    where l: "Use_value visit left s = Inr (l, s1)"
      and r: "Use_value visit right s1 = Inr (rv, s2)"
      and res: "r = set_llvm_value instr (Some (Add l rv)) (Insert (Add l rv) s2)"
      and reps: "representation (hvalues s left) = representation (hvalues s instr)"
        "representation (hvalues s right) = representation (hvalues s instr)"
    by (auto simp: DoAdd_def bindE_Inr split: if_splits)
  from Use_value_mono [OF assms(1) l] Use_value_mono [OF assms(1) r] True reps res
  show ?thesis
    by (simp add: DoAdd_def bindE_def)
qed

lemma DoChange_mono:
  assumes "\<forall>c s r. visit c s = Inr r \<longrightarrow> visit' c s = Inr r"
    and "DoChange visit instr val from to s = Inr r"
  shows "DoChange visit' instr val from to s = Inr r"
  using assms(2) Use_value_mono [OF assms(1)] SmiToInteger32_mono [OF assms(1)]
    Integer32ToSmi_mono [OF assms(1)]
  by (auto simp: DoChange_def Let_def bindE_Inr split: if_splits)

lemma DoCompareNumericAndBranch_mono:
  assumes "\<forall>c s r. visit c s = Inr r \<longrightarrow> visit' c s = Inr r"
    and "DoCompareNumericAndBranch visit instr left right token succ0 succ1 s = Inr r"
  shows "DoCompareNumericAndBranch visit' instr left right token succ0 succ1 s = Inr r"
proof (cases "representation (hvalues s instr) = Integer32")
  case False
  with assms(2) show ?thesis
    by (auto simp: DoCompareNumericAndBranch_def Let_def bindE_Inr split: if_splits)
next
  case True
  with assms(2) obtain p l s1 rv s2
    where p: "TokenToPredicate token (Uint32 (hvalues s left) \<or> Uint32 (hvalues s right)) = Inr p"
      and l: "Use_value visit left s = Inr (l, s1)"
      and r: "Use_value visit right s1 = Inr (rv, s2)"
      and reps: "representation (hvalues s left) = Integer32"
        "representation (hvalues s right) = Integer32"
    by (auto simp: DoCompareNumericAndBranch_def Let_def bindE_Inr split: if_splits)
  from assms(2) Use_value_mono [OF assms(1) l] Use_value_mono [OF assms(1) r] True reps p l r
  show ?thesis
    by (simp add: DoCompareNumericAndBranch_def Let_def bindE_def)
qed

lemma CompileToLLVM_mono:
  assumes "\<forall>c s r. visit c s = Inr r \<longrightarrow> visit' c s = Inr r"
    and "CompileToLLVM visit instr s = Inr r"
  shows "CompileToLLVM visit' instr s = Inr r"
  using assms(2) DoReturn_mono [OF assms(1)] DoAdd_mono [OF assms(1)] DoChange_mono [OF assms(1)]
    DoCompareNumericAndBranch_mono [OF assms(1)]
  by (auto simp: CompileToLLVM_def split: Opcode.splits)

lemma VisitInstruction_body_mono:
  assumes "\<forall>c s r. visit c s = Inr r \<longrightarrow> visit' c s = Inr r"
    and "VisitInstruction_body visit current s = Inr r"
  shows "VisitInstruction_body visit' current s = Inr r"
proof -
  define s0 where "s0 = s\<lparr>current_instruction' := Some current\<rparr>"
  show ?thesis
  proof (cases "\<not> CanReplaceWithDummyUses (hvalues s0 current)
                \<and> (\<forall>successor. (if IsControlInstruction (hvalues s0 current)
                        then KnownSuccessorBlock (hvalues s0 current) else None) \<noteq> Some (Some successor))")
    case False
    with assms(2) show ?thesis
      unfolding VisitInstruction_body_def Let_def s0_def [symmetric]
      by (auto split: if_splits option.splits)
  next
    case True
    with assms(2) obtain s1 where 1: "CompileToLLVM visit current s0 = Inr s1"
      and r: "r = s1\<lparr>current_instruction' := current_instruction' s\<rparr>"
      unfolding VisitInstruction_body_def Let_def s0_def [symmetric]
      by (auto simp: bindE_Inr split: if_splits option.splits)
    from CompileToLLVM_mono [OF assms(1) 1] True r show ?thesis
      unfolding VisitInstruction_body_def Let_def s0_def [symmetric]
      by (auto simp: bindE_def split: if_splits option.splits)
  qed
qed

lemma VisitInstruction_Suc_fuel:
  "VisitInstruction fuel current s = Inr r \<Longrightarrow> VisitInstruction (Suc fuel) current s = Inr r"
proof (induction fuel arbitrary: current s r)
  case 0
  then show ?case by simp
next
  case (Suc fuel)
  have le: "\<forall>c s r. VisitInstruction fuel c s = Inr r \<longrightarrow> VisitInstruction (Suc fuel) c s = Inr r"
    using Suc.IH by blast
  from Suc.prems have "VisitInstruction_body (VisitInstruction fuel) current s = Inr r"
    by simp
  with le have "VisitInstruction_body (VisitInstruction (Suc fuel)) current s = Inr r"
    by (rule VisitInstruction_body_mono)
  then show ?case by simp
qed

lemma VisitInstruction_more_fuel:
  "VisitInstruction fuel current s = Inr r \<Longrightarrow> VisitInstruction (fuel + k) current s = Inr r"
  by (induction k) (simp_all add: VisitInstruction_Suc_fuel del: VisitInstruction.simps)

subsection \<open>What \<open>Use\<close> leaves alone\<close>

text \<open>\<open>Use\<close> keeps the tagging configuration, and so the shift width; on a value that
  already has an LLVM value it returns that value and changes nothing.\<close>

lemma Use_value_wide:
  "Use_value (VisitInstruction fuel) v s = Inr (x, s') \<Longrightarrow> SmiValuesAre32Bits s' = SmiValuesAre32Bits s"
  using frame_Use_value [OF visit_ok_VisitInstruction] by (auto simp: handler_frame_def)

lemma Use_value_present:
  "llvm_value (hvalues s v) = Some x \<Longrightarrow> Use_value visit v s = Inr (x, s)"
  by (simp add: Use_value_def bindE_def)


subsection \<open>Evaluation on concrete graphs\<close>

text \<open>The definitions that a run on a concrete graph unfolds.\<close>

lemmas run_defs =
  NewChunk_def Build_def Build_signature_def CreateModule_def AddModule_def
  DoBasicBlock_def DoBasicBlock_environment_def UpdateEnvironment_def set_argument_count_def
  Use_block_def VisitInstruction_body_def CompileToLLVM_def UNIMPLEMENTED_def is_aborted_def
  is_building_def bindE_def Let_def no_instruction_def no_block_def new_builder_def
  DoReturn_def DoConstant_def Use_value_def IsConstant_def Insert_def set_llvm_value_def
  word_sless_alt

subsection \<open>A whole function\<close>

text \<open>
  The function \<open>add(a, b) { return a + b; }\<close> with both parameters untagged to 32-bit
  integers: one block holding the block entry, the two parameters, their changes to
  32-bit integers, the addition, its change back to tagged and the return. \<open>NewChunk\<close>
  returns the chunk, registered under the module's identifier, and the emitted code is
  two untagging shifts, one add, one tagging shift and one return.
\<close>

lemma add_function_compiles:
  "\<exists>s. NewChunk 1 add_builder = Inr (Some \<lparr>llvm_function_id = Some 0\<rparr>, s)
       \<and> status' s = DONE
       \<and> granularity_modules s = [0]
       \<and> map snd (emitted s) =
           [LShr (Argument 3) 32,
            LShr (Argument 2) 32,
            Add (LShr (Argument 3) 32) (LShr (Argument 2) 32),
            Shl (Add (LShr (Argument 3) 32) (LShr (Argument 2) 32)) 32,
            Ret (Shl (Add (LShr (Argument 3) 32) (LShr (Argument 2) 32)) 32)]"
  by (simp add: add_builder_def run_defs DoAdd_def DoChange_def DoBlockEntry_def DoParameter_def
        DoParameter_loop.simps SmiToInteger32_def Integer32ToSmi_def kSmiShift_def)

subsection \<open>Predicate classification\<close>

text \<open>
  C5 (amended). \<open>TokenToPredicate\<close> returns a predicate, never the bad one, for each of
  the six relational operators under both values of the unsigned flag: the table below is
  the whole function on them. For a fixed flag the six operators get six different
  predicates, but the flag separates only LT, GT, LTE and GTE: EQ and NE get the same
  predicate under both flags, so the twelve combinations yield ten predicates. IN and
  INSTANCEOF reach \<open>UNREACHABLE()\<close>.
\<close>

theorem TokenToPredicate_table:
  "map (\<lambda>op. (TokenToPredicate op False, TokenToPredicate op True)) [EQ, NE, LT, GT, LTE, GTE] =
     [(Inr ICMP_EQ, Inr ICMP_EQ), (Inr ICMP_NE, Inr ICMP_NE),
      (Inr ICMP_SLT, Inr ICMP_ULT), (Inr ICMP_SGT, Inr ICMP_UGT),
      (Inr ICMP_SLE, Inr ICMP_ULE), (Inr ICMP_SGE, Inr ICMP_UGE)]
   \<and> distinct (map (\<lambda>op. TokenToPredicate op is_unsigned) [EQ, NE, LT, GT, LTE, GTE])
   \<and> card (set (map (\<lambda>(op, u). TokenToPredicate op u)
        (List.product [EQ, NE, LT, GT, LTE, GTE] [False, True]))) = 10
   \<and> TokenToPredicate IN is_unsigned = Inl UnreachableCode
   \<and> TokenToPredicate INSTANCEOF is_unsigned = Inl UnreachableCode"
  by (simp add: card_insert_if)

text \<open>
  C5 as stated fails: the combinations (EQ, signed) and (EQ, unsigned) are different and
  get the same predicate.
\<close>

theorem TokenToPredicate_distinct_counterexample:
  "TokenToPredicate EQ False = TokenToPredicate EQ True \<and> (EQ, False) \<noteq> (EQ, True)"
  by simp

subsection \<open>Unimplemented cases and the abort of the unit\<close>

text \<open>
  How an abort travels, with \<open>UNIMPLEMENTED()\<close> as the spec describes it, in a run
  that returns. The unit stays ABORTED through every later visit. The instruction loop
  stops at the visit that leaves the unit ABORTED, whatever handler that was, and the
  per-block driver returns with the status that the loop ended with. \<open>Build\<close> then
  processes none of the remaining blocks and takes its \<open>return NULL\<close>, and
  \<open>NewChunk\<close> returns null exactly when the unit is ABORTED, with nothing registered
  in the session.
\<close>

lemma VisitInstruction_keeps_aborted:
  assumes "VisitInstruction fuel current s = Inr s'" and "is_aborted s"
  shows "is_aborted s'"
proof -
  have "handler_frame s s'"
    using visit_ok_VisitInstruction assms(1) by (auto simp: visit_ok_def)
  then show ?thesis
    using assms(2) by (auto dest: handler_frame_unit unit_frame_aborted)
qed

lemma DoBasicBlock_loop_stops_at_abort:
  assumes "\<not> is_aborted s" and "\<not> EmitAtUses (hvalues s current)"
    and "visit current s = Inr s1" and "is_aborted s1"
  shows "DoBasicBlock_loop visit (current # rest) s = Inr s1"
  using assms by (simp add: bindE_def DoBasicBlock_loop_aborted)

lemma DoBasicBlock_status:
  assumes "DoBasicBlock visit block next s = Inr s'"
  shows "\<exists>s3 s4. DoBasicBlock_loop visit (instructions (hblocks s3 block)) s3 = Inr s4
           \<and> status' s' = status' s4"
proof -
  from assms obtain s3 s4
    where loop: "DoBasicBlock_loop visit (instructions (hblocks s3 block)) s3 = Inr s4"
      and s': "s' = (set_argument_count block (argument_count' s4) s4)
                      \<lparr>next_block' := None, current_block' := None\<rparr>"
    unfolding DoBasicBlock_def Let_def
    by (auto simp: bindE_def split: if_splits sum.splits)
  have "status' s' = status' s4"
    by (simp add: s' set_argument_count_def)
  with loop show ?thesis by blast
qed

lemma Build_blocks_stops_at_abort:
  assumes "DoBasicBlock visit block (case rest of [] \<Rightarrow> None | next # others \<Rightarrow> Some next) s = Inr s'"
    and "is_aborted s'"
  shows "Build_blocks visit (block # rest) s = Inr (True, s')"
  using assms by (simp add: bindE_def)

lemma NewChunk_null_iff_aborted:
  assumes "NewChunk fuel builder = Inr (r, s)"
  shows "(r = None) = is_aborted s"
    and "is_aborted s \<Longrightarrow> granularity_modules s = granularity_modules builder"
proof -
  from assms have b: "Build fuel builder = Inr (r, s)"
    by (auto simp: NewChunk_def bindE_def split: sum.splits if_splits)
  from Build_result [OF b] show "(r = None) = is_aborted s" by simp
  assume "is_aborted s"
  with Build_result [OF b] show "granularity_modules s = granularity_modules builder" by simp
qed

text \<open>A graph of two blocks whose first block holds a typeof instruction: \<open>NewChunk\<close>
  returns null and the second block is never reached.\<close>

lemma typeof_returns_null:
  "\<exists>s. NewChunk (Suc fuel) typeof_builder = Inr (None, s) \<and> is_aborted s
       \<and> granularity_modules s = [] \<and> llvm_basic_block (hblocks s 1) = None"
  by (simp add: typeof_builder_def run_defs)

text \<open>
  C1, at an input where the source departs from it. A function that returns a string
  constant: instruction 3 is the return, its value 1 a tagged constant that is no Smi and
  is emit-at-use. The return's handler resolves the constant through \<open>Use\<close>; the
  constant's handler hits the unimplemented case, which leaves the unit ABORTED, and
  returns; the constant still has no value, so the check in \<open>Use\<close> that it has one
  fails. The run ends there, for every bound on nested visits that lets it get so far:
  \<open>Build\<close> never reaches its test of the abort, and \<open>NewChunk\<close> does not return
  null.
\<close>

theorem string_return_fails_check:
  "opcode (hvalues string_return_builder 3) = HReturn 1 (Some 2)
   \<and> opcode (hvalues string_return_builder 1) = HConstant 0 HeapObject
   \<and> representation (hvalues string_return_builder 1) = Tagged
   \<and> EmitAtUses (hvalues string_return_builder 1)
   \<and> VisitInstruction (Suc fuel) 1 string_return_builder = Inr (UNIMPLEMENTED string_return_builder)
   \<and> is_aborted (UNIMPLEMENTED string_return_builder)
   \<and> VisitInstruction (Suc (Suc fuel)) 3 string_return_builder = Inl CheckFailed
   \<and> NewChunk (Suc (Suc fuel)) string_return_builder = Inl CheckFailed"
  by (simp add: string_return_builder_def run_defs)

subsection \<open>The function signature\<close>

text \<open>Adding 3 to a declared parameter count between 0 and \<open>INT_MAX - 3\<close> does not wrap.\<close>

lemma sint_add3:
  "0 \<le> sint (n :: 32 word) \<Longrightarrow> sint n \<le> 2147483644 \<Longrightarrow> sint (n + 3) = sint n + 3"
proof -
  assume a: "0 \<le> sint n" "sint n \<le> 2147483644"
  then have "signed_take_bit 31 (sint n + 3) = sint n + 3"
    by (intro signed_take_bit_int_eq_self) simp_all
  then show ?thesis by (simp add: sint_word_ariths)
qed

text \<open>
  C8. For a declared parameter count \<open>N\<close> from 0 to \<open>INT_MAX - 3\<close> (the sum with 3 is
  computed in a 32-bit \<open>int\<close>), \<open>Build\<close> makes the target function with
  \<open>N + 2 + 1\<close> parameters, that is \<open>N + 3\<close>; each parameter type and the return type
  is the 64-bit integer type; and the function that \<open>Build\<close> leaves in the builder,
  whenever it returns, is this one.
\<close>

theorem Build_function_signature:
  assumes "0 \<le> sint (num_parameters (info s))"
    and "sint (num_parameters (info s)) \<le> 2147483644"
  shows "\<exists>s1 f. Build_signature s = Inr s1 \<and> function' s1 = Some f
           \<and> length (param_types f) = nat (sint (num_parameters (info s))) + 2 + 1
           \<and> length (param_types f) = nat (sint (num_parameters (info s))) + 3
           \<and> param_types f = replicate (length (param_types f)) Int64Ty
           \<and> return_type f = Int64Ty
           \<and> (\<forall>fuel r s'. Build fuel s = Inr (r, s') \<longrightarrow> function' s' = Some f)"
proof -
  have sum: "sint (num_parameters (info s) + 3) = sint (num_parameters (info s)) + 3"
    using assms by (rule sint_add3)
  have nonneg: "\<not> num_parameters (info s) + 3 <s 0"
    using assms sum by (simp add: word_sless_alt)
  define k where "k = nat (sint (num_parameters (info s) + 3))"
  have n: "k = nat (sint (num_parameters (info s))) + 3"
    using assms by (simp add: k_def sum nat_add_distrib)
  define f where "f = \<lparr>return_type = Int64Ty, param_types = map (\<lambda>i. Int64Ty) [0..<k],
                         is_var_arg = False, calling_conv_X86_64_V8 = True\<rparr>"
  have params: "param_types f = replicate k Int64Ty"
    unfolding f_def by (simp only: map_replicate_const length_upt diff_zero llvm_Function.simps)
  have len: "length (param_types f) = k"
    unfolding params by simp
  obtain s1 where s1: "Build_signature s = Inr s1"
    using nonneg unfolding Build_signature_def Let_def by (simp add: CreateModule_def)
  have f1: "function' s1 = Some f"
    using Build_signature_result [OF s1] by (simp add: f_def k_def)
  have later: "function' s' = Some f" if "Build fuel s = Inr (r, s')" for fuel r s'
    using Build_result [OF that] by (simp add: f_def k_def)
  have ret: "return_type f = Int64Ty"
    by (simp add: f_def)
  have params': "param_types f = replicate (length (param_types f)) Int64Ty"
    using params len by simp
  have len': "length (param_types f) = nat (sint (num_parameters (info s))) + 2 + 1"
    "length (param_types f) = nat (sint (num_parameters (info s))) + 3"
    using len n by simp_all
  from s1 f1 len' params' ret later show ?thesis by blast
qed

theorem Build_function_signature_witness:
  "0 \<le> sint (num_parameters (info typeof_builder))
   \<and> sint (num_parameters (info typeof_builder)) \<le> 2147483644
   \<and> (\<exists>s1 f. Build_signature typeof_builder = Inr s1 \<and> function' s1 = Some f
         \<and> length (param_types f) = 5
         \<and> param_types f = [Int64Ty, Int64Ty, Int64Ty, Int64Ty, Int64Ty]
         \<and> return_type f = Int64Ty
         \<and> (\<exists>r s'. Build 1 typeof_builder = Inr (r, s') \<and> function' s' = Some f))"
proof -
  have hyp: "0 \<le> sint (num_parameters (info typeof_builder))"
      "sint (num_parameters (info typeof_builder)) \<le> 2147483644"
    by (simp_all add: typeof_builder_def new_builder_def)
  have n: "nat (sint (num_parameters (info typeof_builder))) + 2 + 1 = 5"
    by (simp add: typeof_builder_def new_builder_def)
  obtain r s' where run: "Build 1 typeof_builder = Inr (r, s')"
    by (simp add: typeof_builder_def run_defs)
  from Build_function_signature [OF hyp] obtain s1 f
    where 1: "Build_signature typeof_builder = Inr s1" and 2: "function' s1 = Some f"
      and 3: "length (param_types f) = nat (sint (num_parameters (info typeof_builder))) + 2 + 1"
      and 4: "param_types f = replicate (length (param_types f)) Int64Ty"
      and 5: "return_type f = Int64Ty"
      and 6: "\<forall>fuel r s'. Build fuel typeof_builder = Inr (r, s') \<longrightarrow> function' s' = Some f"
    by blast
  have len: "length (param_types f) = 5"
    using 3 n by simp
  have params: "param_types f = [Int64Ty, Int64Ty, Int64Ty, Int64Ty, Int64Ty]"
    using 4 unfolding len by (simp add: numeral_eq_Suc)
  have "function' s' = Some f"
    using 6 run by blast
  with hyp 1 2 len params 5 run show ?thesis by blast
qed

text \<open>Beyond that range the sum wraps around to a negative size, which is fatal.\<close>

lemma Build_signature_overflow:
  "num_parameters (info s) = 2147483647 \<Longrightarrow> Build_signature s = Inl LengthError"
  by (simp add: Build_signature_def CreateModule_def Let_def word_sless_alt)

subsection \<open>Parameter binding\<close>

text \<open>The loop of \<open>DoParameter\<close> in closed form: started where \<open>index + num_parameters\<close>
  is not negative, it steps the iterator \<open>index + num_parameters - 1\<close> times (or not at
  all when that is negative).\<close>

lemma sint_minus_one: "- 2147483648 < sint (w :: 32 word) \<Longrightarrow> sint (w - 1) = sint w - 1"
proof -
  assume low: "- 2147483648 < sint w"
  have "sint w < 2 ^ 31" using sint_lt [of w] by simp
  with low have "signed_take_bit 31 (sint w - 1) = sint w - 1"
    by (intro signed_take_bit_int_eq_self) simp_all
  then show ?thesis by (simp add: sint_word_ariths)
qed

lemma DoParameter_loop_closed:
  "0 \<le> sint (index + num_params) \<Longrightarrow>
     DoParameter_loop index num_params it = it + nat (sint (index + num_params) - 1)"
proof (induction index num_params it rule: DoParameter_loop.induct)
  case (1 index num_params it)
  define v where "v = index + num_params"
  have eq: "index - 1 + num_params = v - 1" by (simp add: v_def)
  have nonneg: "0 \<le> sint v" using "1.prems" by (simp add: v_def)
  have m1: "sint (v - 1) = sint v - 1"
    using nonneg by (intro sint_minus_one) simp
  show ?case
  proof (cases "0 <s index - 1 + num_params")
    case False
    then have "sint v \<le> 1"
      unfolding eq using m1 by (simp add: word_sless_alt)
    then have "nat (sint v - 1) = 0" by simp
    with False show ?thesis
      unfolding v_def [symmetric] by (subst DoParameter_loop.simps) simp
  next
    case True
    then have big: "2 \<le> sint v"
      unfolding eq using m1 by (simp add: word_sless_alt)
    have ge: "0 \<le> sint (index - 1 + num_params)"
      unfolding eq m1 using big by simp
    have "DoParameter_loop (index - 1) num_params (Suc it)
            = Suc it + nat (sint (index - 1 + num_params) - 1)"
      by (rule "1.IH" [OF True ge])
    also have "\<dots> = it + nat (sint v - 1)"
      unfolding eq m1 using big by simp
    finally show ?thesis
      unfolding v_def [symmetric] using True by (subst DoParameter_loop.simps) simp
  qed
qed

lemma sint_param_position:
  assumes "0 \<le> sint (i :: 32 word)" "sint i < sint (n :: 32 word)" "sint n \<le> 2147483644"
  shows "sint (- i + (n + 3)) = sint n + 3 - sint i"
proof -
  have "signed_take_bit 31 (sint (n + 3) - sint i) = sint (n + 3) - sint i"
    using assms sint_add3 [of n] by (intro signed_take_bit_int_eq_self) simp_all
  moreover have "- i + (n + 3) = (n + 3) - i" by simp
  ultimately show ?thesis
    using assms sint_add3 [of n] by (simp add: sint_word_ariths)
qed

text \<open>
  C9. For a declared parameter index \<open>i\<close> with \<open>0 \<le> i < N\<close>, where the declared
  parameter count \<open>N\<close> is at most \<open>INT_MAX - 3\<close>, in a function with the \<open>N + 3\<close>
  arguments that \<open>Build\<close> gives it: \<open>DoParameter\<close> returns, and afterwards the
  instruction's LLVM value is the function's argument at position \<open>N + 3 - 1 - i\<close> from
  the front, which is one of its arguments; no other value changes. For parameter 0 the
  instruction's value is the last argument.
\<close>

theorem DoParameter_from_end:
  assumes "0 \<le> sint i" and "sint i < sint (num_parameters (info s))"
    and "sint (num_parameters (info s)) \<le> 2147483644"
    and "function' s = Some f"
    and "length (param_types f) = nat (sint (num_parameters (info s))) + 3"
  shows "\<exists>s'. DoParameter instr i s = Inr s'
           \<and> llvm_value (hvalues s' instr) =
               Some (Argument (nat (sint (num_parameters (info s))) + 3 - 1 - nat (sint i)))
           \<and> nat (sint (num_parameters (info s))) + 3 - 1 - nat (sint i) < length (param_types f)
           \<and> (\<forall>v. v \<noteq> instr \<longrightarrow> hvalues s' v = hvalues s v)
           \<and> (\<exists>s0. DoParameter instr 0 s = Inr s0
                 \<and> llvm_value (hvalues s0 instr) = Some (Argument (length (param_types f) - 1)))"
proof -
  let ?N = "num_parameters (info s)"
  let ?k = "nat (sint ?N) + 3 - 1 - nat (sint i)"
  have Npos: "0 \<le> sint ?N" using assms(1,2) by simp
  have where_i: "sint (- i + (?N + 3)) = sint ?N + 3 - sint i"
    using assms(1,2,3) by (rule sint_param_position)
  have loop_i: "DoParameter_loop (- i) (?N + 3) 0 = ?k"
  proof -
    have "0 \<le> sint (- i + (?N + 3))" using where_i assms(2) by simp
    from DoParameter_loop_closed [OF this, of 0] where_i assms(1,2) show ?thesis
      by (simp add: nat_diff_distrib nat_add_distrib)
  qed
  have zero0: "0 \<le> sint (0 :: 32 word)" "sint (0 :: 32 word) < sint ?N"
    using assms(1,2) by simp_all
  have where_0: "sint (- 0 + (?N + 3)) = sint ?N + 3 - sint (0 :: 32 word)"
    using zero0 assms(3) by (rule sint_param_position)
  have loop_0: "DoParameter_loop (- 0) (?N + 3) 0 = length (param_types f) - 1"
  proof -
    have "0 \<le> sint (- 0 + (?N + 3))" using where_0 Npos by simp
    from DoParameter_loop_closed [OF this, of 0] where_0 Npos assms(5) show ?thesis
      by (simp add: nat_add_distrib)
  qed
  have in_range: "?k < length (param_types f)"
    using assms(5) by simp
  have last_in_range: "length (param_types f) - 1 < length (param_types f)"
    using assms(5) by simp
  have run_i: "DoParameter instr i s = Inr (set_llvm_value instr (Some (Argument ?k)) s)"
    using assms(4) loop_i in_range by (simp add: DoParameter_def Let_def)
  have run_0: "DoParameter instr 0 s =
                 Inr (set_llvm_value instr (Some (Argument (length (param_types f) - 1))) s)"
    using assms(4) loop_0 last_in_range by (simp add: DoParameter_def Let_def)
  have bound: "llvm_value (hvalues (set_llvm_value instr (Some a) s) instr) = Some a" for a
    by (simp add: set_llvm_value_def)
  have others: "\<forall>v. v \<noteq> instr \<longrightarrow> hvalues (set_llvm_value instr (Some (Argument ?k)) s) v = hvalues s v"
    by (simp add: set_llvm_value_def)
  from run_i run_0 bound others in_range show ?thesis by blast
qed

theorem DoParameter_from_end_witness:
  "0 \<le> sint (1 :: 32 word) \<and> sint (1 :: 32 word) < sint (num_parameters (info signed_builder))
   \<and> sint (num_parameters (info signed_builder)) \<le> 2147483644
   \<and> map_option (\<lambda>f. length (param_types f)) (function' signed_builder)
       = Some (nat (sint (num_parameters (info signed_builder))) + 3)
   \<and> (\<exists>s'. DoParameter 8 1 signed_builder = Inr s'
          \<and> llvm_value (hvalues s' 8) = Some (Argument 3))
   \<and> (\<exists>s0. DoParameter 8 0 signed_builder = Inr s0
          \<and> llvm_value (hvalues s0 8) = Some (Argument 4))
   \<and> llvm_value (hvalues signed_builder 8) = None"
proof -
  define f where "f = \<lparr>return_type = Int64Ty,
                         param_types = [Int64Ty, Int64Ty, Int64Ty, Int64Ty, Int64Ty],
                         is_var_arg = False, calling_conv_X86_64_V8 = True\<rparr>"
  have 1: "0 \<le> sint (1 :: 32 word)" by simp
  have 2: "sint (1 :: 32 word) < sint (num_parameters (info signed_builder))"
    by (simp add: signed_builder_def new_builder_def)
  have 3: "sint (num_parameters (info signed_builder)) \<le> 2147483644"
    by (simp add: signed_builder_def new_builder_def)
  have 4: "function' signed_builder = Some f"
    by (simp add: signed_builder_def new_builder_def f_def)
  have 5: "length (param_types f) = nat (sint (num_parameters (info signed_builder))) + 3"
    by (simp add: signed_builder_def new_builder_def f_def)
  have n: "nat (sint (num_parameters (info signed_builder))) + 3 - 1 - nat (sint (1 :: 32 word)) = 3"
      "length (param_types f) - 1 = 4"
    by (simp_all add: signed_builder_def new_builder_def f_def)
  have before: "llvm_value (hvalues signed_builder 8) = None"
    by (simp add: signed_builder_def new_builder_def no_instruction_def)
  from DoParameter_from_end [OF 1 2 3 4 5, of 8] show ?thesis
    using 1 2 3 4 5 before unfolding n by auto
qed

subsection \<open>The dispatcher's current instruction\<close>

text \<open>
  C10. \<open>VisitInstruction\<close> saves the builder's current instruction on entry and restores
  it on exit: after a visit that returns, and after a \<open>Use\<close> that returns (whether or
  not it visited its emit-at-use operand), the current instruction is what it was before.
\<close>

theorem VisitInstruction_restores_current:
  "(VisitInstruction fuel current s = Inr s' \<longrightarrow> current_instruction' s' = current_instruction' s)
   \<and> (Use fuel v s = Inr (x, s'') \<longrightarrow> current_instruction' s'' = current_instruction' s)"
proof (intro conjI impI)
  show visit: "current_instruction' s' = current_instruction' s"
    if "VisitInstruction fuel current s = Inr s'" for fuel current s s'
    using that
    by (cases fuel) (auto simp: VisitInstruction_body_def bindE_def Let_def split: sum.splits)
  assume "Use fuel v s = Inr (x, s'')"
  then show "current_instruction' s'' = current_instruction' s"
    by (auto simp: Use_def Use_value_def bindE_def split: sum.splits if_splits option.splits
          dest: visit)
qed

theorem VisitInstruction_restores_current_witness:
  "\<exists>s'. VisitInstruction 2 4 arith_builder = Inr s'
        \<and> current_instruction' s' = current_instruction' arith_builder
        \<and> current_instruction' arith_builder = Some 7
        \<and> llvm_value (hvalues arith_builder 2) = None
        \<and> llvm_value (hvalues s' 2) = Some (ConstantInt 1)
        \<and> llvm_value (hvalues s' 4) = Some (Add (Argument 3) (ConstantInt 1))"
proof -
  obtain s' where run: "VisitInstruction 2 4 arith_builder = Inr s'"
    and vals: "llvm_value (hvalues s' 2) = Some (ConstantInt 1)"
      "llvm_value (hvalues s' 4) = Some (Add (Argument 3) (ConstantInt 1))"
    by (simp add: arith_builder_def signed_builder_def run_defs DoAdd_def numeral_2_eq_2)
  have before: "current_instruction' arith_builder = Some 7" "llvm_value (hvalues arith_builder 2) = None"
    by (simp_all add: arith_builder_def signed_builder_def new_builder_def no_instruction_def)
  from VisitInstruction_restores_current [of 2 4 arith_builder s'] run
  have "current_instruction' s' = current_instruction' arith_builder" by blast
  with run vals before show ?thesis by blast
qed

subsection \<open>Environment propagation: single predecessor\<close>

text \<open>
  C2 (amended). For a block that is not the start block and has exactly one predecessor,
  after the environment propagation of \<open>DoBasicBlock\<close> the block's environment is the
  same storage as the predecessor's final environment if and only if it is not the case
  that the predecessor has two successors and at least one of the two successor block
  numbers exceeds the block's number. Otherwise it is a new environment with the same
  slots, and the predecessor's environment keeps its slots. The builder's argument count
  is the predecessor's.
\<close>

theorem single_predecessor_environment:
  assumes "\<not> IsStartBlock (hblocks s block)"
    and "predecessors (hblocks s block) = [pred]"
    and "DoBasicBlock_environment block s = Inr s'"
  shows "\<exists>env env'.
           last_environment (hblocks s pred) = Some env
         \<and> last_environment (hblocks s' block) = Some env'
         \<and> (env' = env) =
             (\<not> (1 < length (end_successors (hblocks s pred))
                  \<and> (end_successors (hblocks s pred) ! 0 > block
                       \<or> end_successors (hblocks s pred) ! 1 > block)))
         \<and> environments s' ! env' = environments s ! env
         \<and> environments s' ! env = environments s ! env
         \<and> argument_count' s' = argument_count (hblocks s pred)"
proof -
  from assms obtain env where env: "last_environment (hblocks s pred) = Some env"
    unfolding DoBasicBlock_environment_def Let_def
    by (auto split: option.splits if_splits)
  show ?thesis
  proof (cases "1 < length (end_successors (hblocks s pred))
                  \<and> (end_successors (hblocks s pred) ! 0 > block
                       \<or> end_successors (hblocks s pred) ! 1 > block)")
    case True
    with assms env have in_range: "env < length (environments s)"
      and s': "s' = (UpdateEnvironment block (Some (length (environments s)))
                      (s\<lparr>environments := environments s @ [environments s ! env]\<rparr>))
                    \<lparr>argument_count' := argument_count (hblocks s pred)\<rparr>"
      unfolding DoBasicBlock_environment_def Let_def
      by (auto simp: bindE_def Copy_def FirstSuccessor_def SecondSuccessor_def UpdateEnvironment_def
            split: if_splits)
    have "last_environment (hblocks s' block) = Some (length (environments s))"
      by (simp add: s' UpdateEnvironment_def)
    moreover have "length (environments s) \<noteq> env"
      using in_range by simp
    moreover have "environments s' ! length (environments s) = environments s ! env"
      by (simp add: s' UpdateEnvironment_def)
    moreover have "environments s' ! env = environments s ! env"
      using in_range by (simp add: s' UpdateEnvironment_def nth_append)
    moreover have "argument_count' s' = argument_count (hblocks s pred)"
      by (simp add: s')
    ultimately show ?thesis
      using env True by simp
  next
    case False
    with assms env have s': "s' = (UpdateEnvironment block (Some env) s)
                    \<lparr>argument_count' := argument_count (hblocks s pred)\<rparr>"
      unfolding DoBasicBlock_environment_def Let_def
      by (auto simp: bindE_def Copy_def FirstSuccessor_def SecondSuccessor_def UpdateEnvironment_def
            split: if_splits)
    have "last_environment (hblocks s' block) = Some env"
      by (simp add: s' UpdateEnvironment_def)
    moreover have "environments s' = environments s"
      by (simp add: s' UpdateEnvironment_def)
    moreover have "argument_count' s' = argument_count (hblocks s pred)"
      by (simp add: s')
    ultimately show ?thesis
      using env False by simp
  qed
qed

text \<open>The theorem at a fork: block 0 branches to blocks 1 and 2. Block 1 gets a copy
  (block 2 is still to come), block 2 shares the predecessor's environment.\<close>

lemmas fork_defs =
  fork_builder_def new_builder_def no_block_def DoBasicBlock_environment_def Let_def bindE_def
  Copy_def FirstSuccessor_def SecondSuccessor_def UpdateEnvironment_def

theorem single_predecessor_environment_witness:
  "\<not> IsStartBlock (hblocks fork_builder 1) \<and> predecessors (hblocks fork_builder 1) = [0]
   \<and> \<not> IsStartBlock (hblocks fork_builder 2) \<and> predecessors (hblocks fork_builder 2) = [0]
   \<and> end_successors (hblocks fork_builder 0) = [1, 2]
   \<and> last_environment (hblocks fork_builder 0) = Some 0
   \<and> (\<exists>s'. DoBasicBlock_environment 1 fork_builder = Inr s'
          \<and> last_environment (hblocks s' 1) = Some 1
          \<and> environments s' ! 1 = environments fork_builder ! 0
          \<and> argument_count' s' = 3)
   \<and> (\<exists>s'. DoBasicBlock_environment 2 fork_builder = Inr s'
          \<and> last_environment (hblocks s' 2) = Some 0
          \<and> argument_count' s' = 3)"
proof -
  have h1: "\<not> IsStartBlock (hblocks fork_builder 1)" "predecessors (hblocks fork_builder 1) = [0]"
    and h2: "\<not> IsStartBlock (hblocks fork_builder 2)" "predecessors (hblocks fork_builder 2) = [0]"
    and succs: "end_successors (hblocks fork_builder 0) = [1, 2]"
    and env0: "last_environment (hblocks fork_builder 0) = Some 0"
    and args: "argument_count (hblocks fork_builder 0) = 3"
    by (simp_all add: fork_builder_def new_builder_def no_block_def)
  obtain s1 where r1: "DoBasicBlock_environment 1 fork_builder = Inr s1"
    by (simp add: fork_defs)
  obtain s2 where r2: "DoBasicBlock_environment 2 fork_builder = Inr s2"
    by (simp add: fork_defs)
  from single_predecessor_environment [OF h1 r1] obtain env1 where
    "last_environment (hblocks s1 1) = Some env1" "env1 \<noteq> 0"
    "environments s1 ! env1 = environments fork_builder ! 0" "argument_count' s1 = 3"
    by (auto simp: succs env0 args)
  moreover have "last_environment (hblocks s1 1) = Some 1"
    using r1 by (auto simp: fork_defs)
  moreover from single_predecessor_environment [OF h2 r2] have
    "last_environment (hblocks s2 2) = Some 0" "argument_count' s2 = 3"
    by (auto simp: succs env0 args)
  ultimately show ?thesis
    using h1 h2 succs env0 r1 r2 by auto
qed

text \<open>
  C2 as stated fails at the same fork: for block 1 the two successor numbers are 1 and 2,
  so not both exceed 1, and the claimed equation makes the environment shared; the code
  copies it, because successor 2 exceeds 1.
\<close>

theorem both_forward_counterexample:
  "(case DoBasicBlock_environment 1 fork_builder of
      Inl e \<Rightarrow> False
    | Inr s' \<Rightarrow>
        (last_environment (hblocks s' 1) = last_environment (hblocks fork_builder 0))
        \<noteq> (\<not> (length (end_successors (hblocks fork_builder 0)) = 2
                \<and> end_successors (hblocks fork_builder 0) ! 0 > 1
                \<and> end_successors (hblocks fork_builder 0) ! 1 > 1)))
   \<and> predecessors (hblocks fork_builder 1) = [0]
   \<and> \<not> IsStartBlock (hblocks fork_builder 1)"
  by (simp add: fork_defs)

subsection \<open>Environment propagation: join\<close>

text \<open>What the two loops of the join case do to the environment that the pointer names:
  a left fold of slot updates over the phis, then over the deleted phis.\<close>

lemma SetValueAt_Some:
  assumes "SetValueAt (Some a) index v s = Inr s'"
  shows "a < length (environments s) \<and> 0 \<le> index \<and> index < int (length (environments s ! a))
       \<and> s' = s\<lparr>environments := (environments s)[a := (environments s ! a)[nat index := v]]\<rparr>"
  using assms by (auto simp: SetValueAt_def split: if_splits)

lemma join_phis_fold:
  "join_phis (Some a) ps s = Inr s' \<Longrightarrow>
     s' = s\<lparr>environments := (environments s)
            [a := foldl (\<lambda>e phi. case merged_index phi of Some i \<Rightarrow> e[nat i := phi_value phi] | None \<Rightarrow> e)
                    (environments s ! a) ps]\<rparr>
     \<and> (\<forall>phi\<in>set ps. \<forall>i. merged_index phi = Some i \<longrightarrow> 0 \<le> i)"
proof (induction ps arbitrary: s)
  case Nil
  then show ?case by simp
next
  case (Cons phi rest)
  show ?case
  proof (cases "merged_index phi")
    case None
    with Cons.prems have "join_phis (Some a) rest s = Inr s'"
      by (simp add: bindE_def)
    from Cons.IH [OF this] None show ?thesis by simp
  next
    case (Some i)
    with Cons.prems obtain s1 where s1: "SetValueAt (Some a) i (phi_value phi) s = Inr s1"
      and rest: "join_phis (Some a) rest s1 = Inr s'"
      by (auto simp: bindE_def split: sum.splits)
    note set = SetValueAt_Some [OF s1]
    have e1: "environments s1 ! a = (environments s ! a)[nat i := phi_value phi]"
      using set by simp
    have es1: "environments s1 = (environments s)[a := (environments s ! a)[nat i := phi_value phi]]"
      using set by simp
    from Cons.IH [OF rest] Some set show ?thesis
      by (simp add: e1 es1)
  qed
qed

lemma length_foldl_phis:
  "length (foldl (\<lambda>e phi. case merged_index phi of Some i \<Rightarrow> e[nat i := phi_value phi] | None \<Rightarrow> e) e ps)
     = length e"
  by (induction ps arbitrary: e) (auto split: option.splits)

lemma foldl_phis_nth:
  assumes "\<forall>phi\<in>set ps. \<forall>i. merged_index phi = Some i \<longrightarrow> 0 \<le> i" and "k < length e"
  shows "foldl (\<lambda>e phi. case merged_index phi of Some i \<Rightarrow> e[nat i := phi_value phi] | None \<Rightarrow> e) e ps ! k
     = (case filter (\<lambda>phi. merged_index phi = Some (int k)) ps of
          [] \<Rightarrow> e ! k
        | q # qs \<Rightarrow> phi_value (last (q # qs)))"
  using assms
proof (induction ps arbitrary: e)
  case Nil
  then show ?case by simp
next
  case (Cons phi rest)
  let ?f = "\<lambda>e phi. case merged_index phi of Some i \<Rightarrow> e[nat i := phi_value phi] | None \<Rightarrow> e"
  have rest_ok: "\<forall>phi\<in>set rest. \<forall>i. merged_index phi = Some i \<longrightarrow> 0 \<le> i"
    using Cons.prems(1) by simp
  have len: "k < length (?f e phi)"
    using Cons.prems(2) by (simp split: option.splits)
  note IH = Cons.IH [OF rest_ok len]
  show ?case
  proof (cases "merged_index phi = Some (int k)")
    case True
    then have here: "?f e phi ! k = phi_value phi"
      using Cons.prems(2) by simp
    show ?thesis
      using IH True here by (simp split: list.splits)
  next
    case False
    have "?f e phi ! k = e ! k"
    proof (cases "merged_index phi")
      case None
      then show ?thesis by simp
    next
      case (Some i)
      with Cons.prems(1) have "0 \<le> i" by simp
      with False Some have "nat i \<noteq> k" by auto
      with Some show ?thesis by simp
    qed
    with IH False show ?thesis by (simp split: list.splits)
  qed
qed


lemma env_length_Some:
  "env_length (Some a) s = Inr n \<Longrightarrow> a < length (environments s) \<and> n = int (length (environments s ! a))"
  by (auto simp: env_length_def split: if_splits)

lemma join_deleted_phis_fold:
  "GetConstantUndefined (graph s) = u \<Longrightarrow> join_deleted_phis (Some a) ds s = Inr s' \<Longrightarrow>
     s' = s\<lparr>environments := (environments s)
            [a := foldl (\<lambda>e d. if d < int (length e) then e[nat d := u] else e)
                    (environments s ! a) ds]\<rparr>
     \<and> (\<forall>d\<in>set ds. d < int (length (environments s ! a)) \<longrightarrow> 0 \<le> d)"
proof (induction ds arbitrary: s)
  case Nil
  then show ?case by simp
next
  case (Cons d rest)
  from Cons.prems(2) obtain n s1 where n: "env_length (Some a) s = Inr n"
    and s1: "(if d < n then SetValueAt (Some a) d (GetConstantUndefined (graph s)) s else Inr s) = Inr s1"
    and rest: "join_deleted_phis (Some a) rest s1 = Inr s'"
    by (auto simp: bindE_def split: sum.splits)
  note len = env_length_Some [OF n]
  show ?case
  proof (cases "d < int (length (environments s ! a))")
    case False
    with s1 len have eq: "s1 = s" by simp
    from Cons.IH [OF Cons.prems(1) rest [unfolded eq]] False show ?thesis by simp
  next
    case True
    with s1 len have set: "SetValueAt (Some a) d u s = Inr s1"
      using Cons.prems(1) by simp
    note upd = SetValueAt_Some [OF set]
    have e1: "environments s1 ! a = (environments s ! a)[nat d := u]"
      using upd by simp
    have es1: "environments s1 = (environments s)[a := (environments s ! a)[nat d := u]]"
      using upd by simp
    have g: "GetConstantUndefined (graph s1) = u"
      using upd Cons.prems(1) by simp
    from Cons.IH [OF g rest] True upd show ?thesis
      by (simp add: e1 es1)
  qed
qed

lemma length_foldl_deleted:
  "length (foldl (\<lambda>e d. if d < int (length e) then e[nat d := u] else e) e ds) = length e"
  by (induction ds arbitrary: e) auto

lemma foldl_deleted_nth:
  assumes "\<forall>d\<in>set ds. d < int (length e) \<longrightarrow> 0 \<le> d" and "k < length e"
  shows "foldl (\<lambda>e d. if d < int (length e) then e[nat d := u] else e) e ds ! k
     = (if int k \<in> set ds then u else e ! k)"
  using assms
proof (induction ds arbitrary: e)
  case Nil
  then show ?case by simp
next
  case (Cons d rest)
  let ?e1 = "if d < int (length e) then e[nat d := u] else e"
  have len1: "length ?e1 = length e" by simp
  have rest_ok: "\<forall>d\<in>set rest. d < int (length ?e1) \<longrightarrow> 0 \<le> d"
    using Cons.prems(1) by simp
  have k1: "k < length ?e1"
    using Cons.prems(2) by simp
  have IH: "foldl (\<lambda>e d. if d < int (length e) then e[nat d := u] else e) ?e1 rest ! k
              = (if int k \<in> set rest then u else ?e1 ! k)"
    by (rule Cons.IH [OF rest_ok k1])
  have here: "?e1 ! k = (if int k = d then u else e ! k)"
  proof (cases "d < int (length e)")
    case True
    with Cons.prems(1) have "0 \<le> d" by simp
    then have "(nat d = k) = (int k = d)" by auto
    with True Cons.prems(2) show ?thesis by (simp add: nth_list_update)
  next
    case False
    with Cons.prems(2) have "int k \<noteq> d" by auto
    with False show ?thesis by simp
  qed
  show ?case
    using IH here by (simp del: foldl_Cons add: foldl_Cons [where x = d])
qed


text \<open>
  C3. For a block that is not the start block and has more than one predecessor, whose
  first predecessor has a final environment, after the environment propagation of
  \<open>DoBasicBlock\<close>: the block's environment is the first predecessor's, the same
  storage (no environment is allocated); in it, every slot listed as a deleted phi (the
  slots of the environment are those below its length) holds the undefined constant,
  every other slot that has a phi holds that phi (the last one, should several name the
  slot), and the remaining slots are unchanged, as are all other environments; the
  builder's argument count is the first predecessor's.
\<close>

theorem join_environment:
  assumes "\<not> IsStartBlock (hblocks s block)"
    and "predecessors (hblocks s block) = pred # second # others"
    and "last_environment (hblocks s pred) = Some env"
    and "env < length (environments s)"
    and "DoBasicBlock_environment block s = Inr s'"
  shows "last_environment (hblocks s' block) = Some env
       \<and> length (environments s') = length (environments s)
       \<and> length (environments s' ! env) = length (environments s ! env)
       \<and> (\<forall>k. k < length (environments s ! env) \<longrightarrow>
             environments s' ! env ! k =
               (if int k \<in> set (deleted_phis (hblocks s block)) then GetConstantUndefined (graph s)
                else case filter (\<lambda>phi. merged_index phi = Some (int k)) (phis (hblocks s block)) of
                       [] \<Rightarrow> environments s ! env ! k
                     | q # qs \<Rightarrow> phi_value (last (q # qs))))
       \<and> (\<forall>a. a \<noteq> env \<longrightarrow> environments s' ! a = environments s ! a)
       \<and> argument_count' s' = argument_count (hblocks s pred)"
proof -
  let ?f = "\<lambda>e phi. case merged_index phi of Some i \<Rightarrow> e[nat i := phi_value phi] | None \<Rightarrow> e"
  let ?u = "GetConstantUndefined (graph s)"
  let ?g = "\<lambda>e d. if d < int (length e) then e[nat d := ?u] else e"
  let ?ps = "phis (hblocks s block)"
  let ?ds = "deleted_phis (hblocks s block)"
  define e0 where "e0 = environments s ! env"
  define e1 where "e1 = foldl ?f e0 ?ps"
  define e2 where "e2 = foldl ?g e1 ?ds"
  from assms(1,2,3,5) obtain s1 s2
    where 1: "join_phis (Some env) ?ps s = Inr s1"
      and 2: "join_deleted_phis (Some env) (deleted_phis (hblocks s1 block)) s1 = Inr s2"
      and 3: "s' = (UpdateEnvironment block (Some env) s2)
                     \<lparr>argument_count' := argument_count (hblocks (UpdateEnvironment block (Some env) s2) pred)\<rparr>"
    unfolding DoBasicBlock_environment_def Let_def
    by (auto simp: bindE_def split: sum.splits)
  from join_phis_fold [OF 1]
  have s1: "s1 = s\<lparr>environments := (environments s)[env := e1]\<rparr>"
    and phis_ok: "\<forall>phi\<in>set ?ps. \<forall>i. merged_index phi = Some i \<longrightarrow> 0 \<le> i"
    by (simp_all add: e1_def e0_def)
  have env1: "environments s1 ! env = e1"
    using assms(4) by (simp add: s1)
  have u1: "GetConstantUndefined (graph s1) = ?u" and b1: "hblocks s1 = hblocks s"
    by (simp_all add: s1)
  from join_deleted_phis_fold [OF u1 2]
  have s2: "s2 = s1\<lparr>environments := (environments s1)[env := e2]\<rparr>"
    and deleted_ok: "\<forall>d\<in>set ?ds. d < int (length e1) \<longrightarrow> 0 \<le> d"
    by (simp_all add: env1 b1 e2_def)
  have envs': "environments s' = (environments s)[env := e2]"
    by (simp add: 3 s2 s1 UpdateEnvironment_def)
  have blocks': "hblocks s' = (hblocks s)(block := (hblocks s block)\<lparr>last_environment := Some env\<rparr>)"
    by (simp add: 3 s2 s1 UpdateEnvironment_def)
  have len1: "length e1 = length e0"
    unfolding e1_def by (rule length_foldl_phis)
  have len2: "length e2 = length e1"
    unfolding e2_def by (rule length_foldl_deleted)
  have slot: "e2 ! k =
               (if int k \<in> set ?ds then ?u
                else case filter (\<lambda>phi. merged_index phi = Some (int k)) ?ps of
                       [] \<Rightarrow> e0 ! k
                     | q # qs \<Rightarrow> phi_value (last (q # qs)))" if k: "k < length e0" for k
  proof -
    have "e2 ! k = (if int k \<in> set ?ds then ?u else e1 ! k)"
      unfolding e2_def using deleted_ok k len1 by (intro foldl_deleted_nth) simp_all
    moreover have "e1 ! k = (case filter (\<lambda>phi. merged_index phi = Some (int k)) ?ps of
                       [] \<Rightarrow> e0 ! k
                     | q # qs \<Rightarrow> phi_value (last (q # qs)))"
      unfolding e1_def using phis_ok k by (rule foldl_phis_nth)
    ultimately show ?thesis by simp
  qed
  have here: "environments s' ! env = e2"
    using assms(4) by (simp add: envs')
  have "last_environment (hblocks s' block) = Some env"
    by (simp add: blocks')
  moreover have "length (environments s') = length (environments s)"
    by (simp add: envs')
  moreover have "length (environments s' ! env) = length (environments s ! env)"
    using len1 len2 by (simp add: here e0_def)
  moreover have "\<forall>k. k < length (environments s ! env) \<longrightarrow>
             environments s' ! env ! k =
               (if int k \<in> set ?ds then ?u
                else case filter (\<lambda>phi. merged_index phi = Some (int k)) ?ps of
                       [] \<Rightarrow> environments s ! env ! k
                     | q # qs \<Rightarrow> phi_value (last (q # qs)))"
    using slot unfolding here e0_def by blast
  moreover have "\<forall>a. a \<noteq> env \<longrightarrow> environments s' ! a = environments s ! a"
    by (simp add: envs')
  moreover have "argument_count' s' = argument_count (hblocks s pred)"
    by (simp add: 3 s2 s1 UpdateEnvironment_def)
  ultimately show ?thesis by blast
qed

text \<open>The theorem at a join of blocks 1 and 2 into block 3, with a phi for slot 1 and
  deleted phis 2 (in range) and 7 (out of range).\<close>

lemmas join_defs =
  join_builder_def new_builder_def no_block_def DoBasicBlock_environment_def Let_def bindE_def
  SetValueAt_def env_length_def UpdateEnvironment_def

theorem join_environment_witness:
  "\<not> IsStartBlock (hblocks join_builder 3)
   \<and> predecessors (hblocks join_builder 3) = [1, 2]
   \<and> last_environment (hblocks join_builder 1) = Some 0
   \<and> environments join_builder = [[10, 11, 12], [10, 13, 12]]
   \<and> (\<exists>s'. DoBasicBlock_environment 3 join_builder = Inr s'
          \<and> last_environment (hblocks s' 3) = Some 0
          \<and> environments s' = [[10, 20, 99], [10, 13, 12]]
          \<and> argument_count' s' = 4)"
proof -
  have h: "\<not> IsStartBlock (hblocks join_builder 3)"
      "predecessors (hblocks join_builder 3) = 1 # 2 # []"
      "last_environment (hblocks join_builder 1) = Some 0"
      "0 < length (environments join_builder)"
    and envs: "environments join_builder = [[10, 11, 12], [10, 13, 12]]"
    and args: "argument_count (hblocks join_builder 1) = 4"
    by (simp_all add: join_builder_def new_builder_def no_block_def)
  obtain s' where run: "DoBasicBlock_environment 3 join_builder = Inr s'"
    and envs': "environments s' = [[10, 20, 99], [10, 13, 12]]"
    by (simp add: join_defs)
  from join_environment [OF h run] args
  have "last_environment (hblocks s' 3) = Some 0" "argument_count' s' = 4"
    by simp_all
  with h envs run envs' show ?thesis by simp
qed

subsection \<open>The uniform shape of the arithmetic handlers\<close>

text \<open>
  \<open>DoAdd\<close> has the shape that the spec describes: it checks the operands'
  representations against the instruction's, resolves both operands through \<open>Use\<close>,
  creates the addition and records it as the instruction's value.
\<close>

lemma Use_value_memoized:
  "Use_value visit v s = Inr (x, s') \<Longrightarrow> llvm_value (hvalues s' v) = Some x"
  by (auto simp: Use_value_def bindE_def split: sum.splits option.splits if_splits)

lemma DoAdd_shape:
  assumes "DoAdd visit instr left right s = Inr s'"
    and "representation (hvalues s instr) = Integer32 \<or> representation (hvalues s instr) = Smi"
  shows "representation (hvalues s left) = representation (hvalues s instr)
       \<and> representation (hvalues s right) = representation (hvalues s instr)
       \<and> (\<exists>l s1 r s2. Use_value visit left s = Inr (l, s1) \<and> Use_value visit right s1 = Inr (r, s2)
             \<and> s' = set_llvm_value instr (Some (Add l r)) (Insert (Add l r) s2)
             \<and> llvm_value (hvalues s' instr) = Some (Add l r))"
  using assms
  by (auto simp: DoAdd_def bindE_def set_llvm_value_def split: sum.splits if_splits)

text \<open>
  C4, at an input where the source departs from it. \<open>DoSub\<close> and \<open>DoMul\<close> read
  \<open>left->llvm_value()\<close> and \<open>right->llvm_value()\<close> directly, behind a \<open>CHECK\<close>,
  and never call \<open>Use\<close>. In this graph value 1 is a bound 32-bit parameter and value 2
  the 32-bit constant 1, which is emit-at-use and has no value yet; values 3, 4 and 5 are
  the subtraction, the addition and the multiplication of the two. Visiting the
  subtraction or the multiplication fails the check; visiting the addition materializes
  the constant and creates the add.
\<close>

theorem DoSub_DoMul_do_not_materialize:
  "EmitAtUses (hvalues arith_builder 2) \<and> llvm_value (hvalues arith_builder 2) = None
   \<and> opcode (hvalues arith_builder 3) = HSub 1 2
   \<and> opcode (hvalues arith_builder 5) = HMul 1 2
   \<and> opcode (hvalues arith_builder 4) = HAdd 1 2
   \<and> VisitInstruction 2 3 arith_builder = Inl CheckFailed
   \<and> VisitInstruction 2 5 arith_builder = Inl CheckFailed
   \<and> (case VisitInstruction 2 4 arith_builder of
         Inl e \<Rightarrow> False
       | Inr s' \<Rightarrow> llvm_value (hvalues s' 2) = Some (ConstantInt 1)
                 \<and> llvm_value (hvalues s' 4) = Some (Add (Argument 3) (ConstantInt 1)))"
  by (simp add: arith_builder_def signed_builder_def run_defs DoAdd_def DoSub_def DoMul_def
        numeral_2_eq_2)

subsection \<open>Tagging and untagging\<close>

text \<open>Shifting a 64-bit word left and then logically right by 32 keeps its low 32 bits
  and clears the high ones.\<close>

lemma drop_bit_push_bit_32: "drop_bit 32 (push_bit 32 w) = take_bit 32 (w :: 64 word)"
  by (rule bit_word_eqI) (auto simp: bit_simps)

lemma take_bit_32_ucast: "take_bit 32 (w :: 64 word) = ucast (ucast w :: 32 word)"
  by (rule bit_word_eqI) (auto simp: bit_simps)

text \<open>
  What the round trip computes under the wide-tagging configuration: let
  \<open>Integer32ToSmi\<close> tag the value \<open>x\<close>, giving the LLVM value \<open>t\<close>, and let
  \<open>SmiToInteger32\<close> untag a value \<open>y\<close> that holds \<open>t\<close>. Then \<open>t\<close> is the left
  shift by 32 of \<open>x\<close>'s LLVM value, the result is the logical right shift by 32 of
  \<open>t\<close>, and it denotes the low 32 bits of the word that \<open>x\<close> denotes, with the high
  32 bits cleared.
\<close>

lemma smi_roundtrip_value:
  assumes "SmiValuesAre32Bits s" and "SmiValuesAre32Bits s2"
    and "Integer32ToSmi (VisitInstruction fuel) x s = Inr (t, s1)"
    and "llvm_value (hvalues s2 y) = Some t"
    and "SmiToInteger32 (VisitInstruction fuel) y s2 = Inr (r, s3)"
  shows "\<exists>vx. llvm_value (hvalues s1 x) = Some vx
           \<and> t = Shl vx 32 \<and> r = Some (LShr (Shl vx 32) 32)
           \<and> (\<forall>args w. eval_llvm args vx = Some w \<longrightarrow>
                 eval_llvm args (LShr (Shl vx 32) 32) = Some (take_bit 32 w))"
proof -
  from assms(3) obtain vx s1' where use: "Use_value (VisitInstruction fuel) x s = Inr (vx, s1')"
    and t: "t = Shl vx (kSmiShift s1')" and s1: "s1 = Insert (Shl vx (kSmiShift s1')) s1'"
    by (auto simp: Integer32ToSmi_def bindE_def split: sum.splits)
  have "SmiValuesAre32Bits s1'"
    using Use_value_wide [OF use] assms(1) by simp
  then have shift1: "kSmiShift s1' = 32"
    by (simp add: kSmiShift_def)
  have vx: "llvm_value (hvalues s1 x) = Some vx"
    using Use_value_memoized [OF use] by (simp add: s1 Insert_def)
  have shift2: "kSmiShift s2 = 32"
    using assms(2) by (simp add: kSmiShift_def)
  have r: "r = Some (LShr t 32)"
    using assms(2,5) Use_value_present [OF assms(4)]
    by (simp add: SmiToInteger32_def bindE_def shift2)
  have sem: "eval_llvm args (LShr (Shl vx 32) 32) = Some (take_bit 32 w)"
    if "eval_llvm args vx = Some w" for args w
    using that by (simp add: drop_bit_push_bit_32)
  show ?thesis
    using vx t r sem unfolding shift1 by blast
qed

text \<open>
  \<open>DoConstant\<close> holds a 32-bit integer as its sign extension to 64 bits. The round
  trip gives that word back exactly when the integer is not negative.
\<close>

lemma roundtrip_of_sign_extended:
  fixes x :: "32 word"
  shows "(take_bit 32 (scast x :: 64 word) = scast x) = (0 \<le> sint x)"
proof
  assume eq: "take_bit 32 (scast x :: 64 word) = scast x"
  have "\<not> bit (take_bit 32 (scast x :: 64 word)) 63"
    by (simp add: bit_simps)
  with eq have "\<not> bit (scast x :: 64 word) 63" by simp
  then have "\<not> bit x 31" by (simp add: bit_simps)
  then show "0 \<le> sint x"
    using bit_last_iff [of x] by simp
next
  assume "0 \<le> sint x"
  then have top: "\<not> bit x 31"
    using bit_last_iff [of x] by simp
  show "take_bit 32 (scast x :: 64 word) = scast x"
    by (rule bit_word_eqI) (use top in \<open>auto simp: bit_simps min_def dest: bit_imp_le_length\<close>)
qed

text \<open>
  C6, at an input where the source departs from it. Value 1 is the 32-bit integer
  constant -1, value 2 its change to tagged (it cannot overflow), value 3 the change of
  value 2 back to a 32-bit integer, under the wide-tagging configuration. After visiting
  the two changes, the constant's LLVM value is the 64-bit constant -1 (all 64 bits set),
  and the value of the round trip is the logical right shift by 32 of its left shift by
  32, which denotes 4294967295: the round trip does not reproduce -1.
\<close>

theorem negative_roundtrip_differs:
  "opcode (hvalues change_builder 1) = HConstant (- 1) (SmiObject 0)
   \<and> representation (hvalues change_builder 1) = Integer32
   \<and> opcode (hvalues change_builder 2) = HChange 1 Integer32 Tagged
   \<and> \<not> CanOverflow (hvalues change_builder 2)
   \<and> opcode (hvalues change_builder 3) = HChange 2 Tagged Integer32
   \<and> SmiValuesAre32Bits change_builder
   \<and> (case VisitInstruction 2 2 change_builder of
         Inl e \<Rightarrow> False
       | Inr s1 \<Rightarrow>
          (case VisitInstruction 2 3 s1 of
             Inl e \<Rightarrow> False
           | Inr s2 \<Rightarrow>
               llvm_value (hvalues s2 1) = Some (ConstantInt (- 1))
             \<and> llvm_value (hvalues s2 2) = Some (Shl (ConstantInt (- 1)) 32)
             \<and> llvm_value (hvalues s2 3) = Some (LShr (Shl (ConstantInt (- 1)) 32) 32)))
   \<and> eval_llvm args (ConstantInt (- 1)) = Some 18446744073709551615
   \<and> eval_llvm args (LShr (Shl (ConstantInt (- 1)) 32) 32) = Some 4294967295
   \<and> sint (18446744073709551615 :: 64 word) = - 1
   \<and> sint (4294967295 :: 64 word) = 4294967295"
proof -
  have shifted: "drop_bit 32 (push_bit 32 (- 1 :: 64 word)) = 4294967295"
    by (simp add: drop_bit_push_bit_32 mask_eq_exp_minus_1)
  have run: "(case VisitInstruction 2 2 change_builder of
         Inl e \<Rightarrow> False
       | Inr s1 \<Rightarrow>
          (case VisitInstruction 2 3 s1 of
             Inl e \<Rightarrow> False
           | Inr s2 \<Rightarrow>
               llvm_value (hvalues s2 1) = Some (ConstantInt (- 1))
             \<and> llvm_value (hvalues s2 2) = Some (Shl (ConstantInt (- 1)) 32)
             \<and> llvm_value (hvalues s2 3) = Some (LShr (Shl (ConstantInt (- 1)) 32) 32)))"
    by (simp add: change_builder_def signed_builder_def run_defs DoChange_def SmiToInteger32_def
          Integer32ToSmi_def kSmiShift_def numeral_2_eq_2)
  have graph: "opcode (hvalues change_builder 1) = HConstant (- 1) (SmiObject 0)"
    "representation (hvalues change_builder 1) = Integer32"
    "opcode (hvalues change_builder 2) = HChange 1 Integer32 Tagged"
    "\<not> CanOverflow (hvalues change_builder 2)"
    "opcode (hvalues change_builder 3) = HChange 2 Tagged Integer32"
    "SmiValuesAre32Bits change_builder"
    by (simp_all add: change_builder_def signed_builder_def new_builder_def no_instruction_def)
  have vals: "eval_llvm args (ConstantInt (- 1)) = Some 18446744073709551615"
    "eval_llvm args (LShr (Shl (ConstantInt (- 1)) 32) 32) = Some 4294967295"
    "sint (18446744073709551615 :: 64 word) = - 1"
    "sint (4294967295 :: 64 word) = 4294967295"
    using shifted by simp_all
  from graph run vals show ?thesis by blast
qed

subsection \<open>Representation changes\<close>





end
